theory Spec2Isabelle
  imports Complex_Main
begin

section \<open>Data model of the matching engine (src/main.cpp)\<close>

text \<open>
  The class \<open>Order\<close>. The C++ fields are \<open>int orderID\<close>, \<open>string type\<close>,
  \<open>double price\<close>, \<open>int quantity\<close> and \<open>long timestamp\<close>.
  The engine only copies and compares prices (\<open>!=\<close>, \<open><\<close>, \<open>>\<close>, \<open><=\<close>, \<open>>=\<close>) and never
  computes with them, so a price is modelled by the real number the double stands for
  (the order of the finite doubles is the order of the reals; a NaN price is outside the
  model). Quantities are mathematical integers: the lemma \<open>reachable_book_wf\<close> below shows
  that every resting quantity stays in \<open>1..1000\<close>, so no \<open>int\<close> operation of the matching
  loops leaves the 32-bit range on a book the engine can build.
\<close>

record Order =
  orderID :: int
  type :: string
  price :: real
  quantity :: int
  timestamp :: int

text \<open>The constructor \<open>Order(id, orderType, orderPrice, orderQuantity, orderTimestamp)\<close>.\<close>

definition mkOrder :: "int \<Rightarrow> string \<Rightarrow> real \<Rightarrow> int \<Rightarrow> int \<Rightarrow> Order" where
  "mkOrder ident orderType orderPrice orderQuantity orderTimestamp =
     \<lparr>orderID = ident, type = orderType, price = orderPrice, quantity = orderQuantity,
      timestamp = orderTimestamp\<rparr>"

text \<open>\<open>BuyOrderComparator\<close> and \<open>SellOrderComparator\<close>: \<open>cmp a b\<close> holds when \<open>a\<close> has
  lower priority than \<open>b\<close>.\<close>

definition BuyOrderComparator :: "Order \<Rightarrow> Order \<Rightarrow> bool" where
  "BuyOrderComparator a b =
     (if price a \<noteq> price b then price a < price b else timestamp a > timestamp b)"

definition SellOrderComparator :: "Order \<Rightarrow> Order \<Rightarrow> bool" where
  "SellOrderComparator a b =
     (if price a \<noteq> price b then price a > price b else timestamp a > timestamp b)"

subsection \<open>The priority queue\<close>

text \<open>
  \<open>std::priority_queue<Order, vector<Order>, Comp>\<close> is used through \<open>push\<close>, \<open>top\<close>, \<open>pop\<close>,
  \<open>empty\<close> and \<open>size\<close>. The container is modelled by the list of its elements: \<open>push\<close>
  appends, \<open>pop\<close> removes the top. \<open>top\<close> is an element that no other element beats under
  the comparator; C++ leaves open which one is returned when several elements are
  equivalent, and the model returns the first such element of the list, where a binary
  heap may return another of the tied elements. The theorems on
  all books use of the queue only that \<open>top\<close> is such an element of it (lemmas \<open>pq_top_mem\<close>,
  \<open>sell_top_best\<close>, \<open>buy_top_best\<close>), that \<open>pop\<close> removes it and that \<open>push\<close> adds one element.
  \<open>top\<close> and \<open>pop\<close> on an empty queue are undefined behaviour in C++ and \<open>None\<close> here; the
  loops call them behind \<open>hasSellOrders\<close> and \<open>hasBuyOrders\<close> only (lemma \<open>peek_defined\<close>).
\<close>

fun pq_best :: "('a \<Rightarrow> 'a \<Rightarrow> bool) \<Rightarrow> 'a \<Rightarrow> 'a list \<Rightarrow> 'a" where
  "pq_best cmp best [] = best"
| "pq_best cmp best (y # ys) = pq_best cmp (if cmp best y then y else best) ys"

definition pq_top :: "('a \<Rightarrow> 'a \<Rightarrow> bool) \<Rightarrow> 'a list \<Rightarrow> 'a option" where
  "pq_top cmp c = (case c of [] \<Rightarrow> None | x # xs \<Rightarrow> Some (pq_best cmp x xs))"

definition pq_push :: "'a \<Rightarrow> 'a list \<Rightarrow> 'a list" where
  "pq_push x c = c @ [x]"

definition pq_pop :: "('a \<Rightarrow> 'a \<Rightarrow> bool) \<Rightarrow> 'a list \<Rightarrow> 'a list option" where
  "pq_pop cmp c = (case pq_top cmp c of None \<Rightarrow> None | Some x \<Rightarrow> Some (remove1 x c))"

subsection \<open>The class \<open>OrderBook\<close>\<close>

record OrderBook =
  buyOrders :: "Order list"
  sellOrders :: "Order list"

definition addBuyOrder :: "Order \<Rightarrow> OrderBook \<Rightarrow> OrderBook" where
  "addBuyOrder order book = book\<lparr>buyOrders := pq_push order (buyOrders book)\<rparr>"

definition addSellOrder :: "Order \<Rightarrow> OrderBook \<Rightarrow> OrderBook" where
  "addSellOrder order book = book\<lparr>sellOrders := pq_push order (sellOrders book)\<rparr>"

definition hasBuyOrders :: "OrderBook \<Rightarrow> bool" where
  "hasBuyOrders book = (buyOrders book \<noteq> [])"

definition hasSellOrders :: "OrderBook \<Rightarrow> bool" where
  "hasSellOrders book = (sellOrders book \<noteq> [])"

definition peekTopBuyOrder :: "OrderBook \<Rightarrow> Order option" where
  "peekTopBuyOrder book = pq_top BuyOrderComparator (buyOrders book)"

definition peekTopSellOrder :: "OrderBook \<Rightarrow> Order option" where
  "peekTopSellOrder book = pq_top SellOrderComparator (sellOrders book)"

definition getTopBuyOrder :: "OrderBook \<Rightarrow> (Order \<times> OrderBook) option" where
  "getTopBuyOrder book =
     (case pq_top BuyOrderComparator (buyOrders book) of
        None \<Rightarrow> None
      | Some order \<Rightarrow>
          (case pq_pop BuyOrderComparator (buyOrders book) of
             None \<Rightarrow> None
           | Some rest \<Rightarrow> Some (order, book\<lparr>buyOrders := rest\<rparr>)))"

definition getTopSellOrder :: "OrderBook \<Rightarrow> (Order \<times> OrderBook) option" where
  "getTopSellOrder book =
     (case pq_top SellOrderComparator (sellOrders book) of
        None \<Rightarrow> None
      | Some order \<Rightarrow>
          (case pq_pop SellOrderComparator (sellOrders book) of
             None \<Rightarrow> None
           | Some rest \<Rightarrow> Some (order, book\<lparr>sellOrders := rest\<rparr>)))"

definition getBuyOrderCount :: "OrderBook \<Rightarrow> nat" where
  "getBuyOrderCount book = length (buyOrders book)"

definition getSellOrderCount :: "OrderBook \<Rightarrow> nat" where
  "getSellOrderCount book = length (sellOrders book)"

subsection \<open>Trades and the class \<open>MatchingEngine\<close>\<close>

text \<open>
  A trade is one call \<open>tradeLogger.logTrade(buyOrderID, sellOrderID, price, quantity)\<close>.
  The field \<open>tradeLogger\<close> is the list of the trades the logger was handed, oldest first:
  the lines it appends to \<open>trades.log\<close> when the file is open, without their wall-clock
  prefix. \<open>cout\<close> is the standard output: one \<open>message\<close> for each line (or group of lines)
  that the engine and the logger write and for each complaint of the menu about what was
  typed; the menu's prompts are left out.
\<close>

record Trade =
  buyOrderID :: int
  sellOrderID :: int
  trade_price :: real
  trade_quantity :: int

datatype message =
    OrderRejected int
  | ProcessingNewOrder Order
  | TradeExecuted Trade
  | InvalidOrderType
  | InvalidPrice
  | InvalidQuantity

record MatchingEngine =
  orderBook :: OrderBook
  tradeLogger :: "Trade list"
  cout :: "message list"

definition logTrade :: "int \<Rightarrow> int \<Rightarrow> real \<Rightarrow> int \<Rightarrow> MatchingEngine \<Rightarrow> MatchingEngine" where
  "logTrade buyID sellID p q eng =
     (let trade = \<lparr>buyOrderID = buyID, sellOrderID = sellID, trade_price = p,
                   trade_quantity = q\<rparr>
      in eng\<lparr>tradeLogger := tradeLogger eng @ [trade],
             cout := cout eng @ [TradeExecuted trade]\<rparr>)"

text \<open>
  One pass through the \<open>while\<close> loop of \<open>processBuyOrder\<close>, on the local \<open>buyOrder\<close> and the
  engine: \<open>None\<close> when the loop is left (its condition is false, or the \<open>break\<close>), otherwise
  the state after the body.
\<close>

definition processBuyOrder_body :: "Order \<times> MatchingEngine \<Rightarrow> (Order \<times> MatchingEngine) option" where
  "processBuyOrder_body s =
     (case s of (buyOrder, eng) \<Rightarrow>
        if quantity buyOrder > 0 \<and> hasSellOrders (orderBook eng) then
          (case peekTopSellOrder (orderBook eng) of
             None \<Rightarrow> None
           | Some topSellOrder \<Rightarrow>
               if price buyOrder \<ge> price topSellOrder then
                 (case getTopSellOrder (orderBook eng) of
                    None \<Rightarrow> None
                  | Some (popped, book1) \<Rightarrow>
                      let tradeQuantity = min (quantity buyOrder) (quantity topSellOrder);
                          tradePrice = price topSellOrder;
                          eng1 = logTrade (orderID buyOrder) (orderID topSellOrder)
                                   tradePrice tradeQuantity eng;
                          buyOrder1 = buyOrder\<lparr>quantity := quantity buyOrder - tradeQuantity\<rparr>;
                          topSellOrder1 =
                            topSellOrder\<lparr>quantity := quantity topSellOrder - tradeQuantity\<rparr>;
                          book2 = (if quantity topSellOrder1 > 0
                                   then addSellOrder topSellOrder1 book1 else book1)
                      in Some (buyOrder1, eng1\<lparr>orderBook := book2\<rparr>))
               else None)
        else None)"

definition processSellOrder_body :: "Order \<times> MatchingEngine \<Rightarrow> (Order \<times> MatchingEngine) option" where
  "processSellOrder_body s =
     (case s of (sellOrder, eng) \<Rightarrow>
        if quantity sellOrder > 0 \<and> hasBuyOrders (orderBook eng) then
          (case peekTopBuyOrder (orderBook eng) of
             None \<Rightarrow> None
           | Some topBuyOrder \<Rightarrow>
               if price sellOrder \<le> price topBuyOrder then
                 (case getTopBuyOrder (orderBook eng) of
                    None \<Rightarrow> None
                  | Some (popped, book1) \<Rightarrow>
                      let tradeQuantity = min (quantity sellOrder) (quantity topBuyOrder);
                          tradePrice = price topBuyOrder;
                          eng1 = logTrade (orderID topBuyOrder) (orderID sellOrder)
                                   tradePrice tradeQuantity eng;
                          sellOrder1 = sellOrder\<lparr>quantity := quantity sellOrder - tradeQuantity\<rparr>;
                          topBuyOrder1 =
                            topBuyOrder\<lparr>quantity := quantity topBuyOrder - tradeQuantity\<rparr>;
                          book2 = (if quantity topBuyOrder1 > 0
                                   then addBuyOrder topBuyOrder1 book1 else book1)
                      in Some (sellOrder1, eng1\<lparr>orderBook := book2\<rparr>))
               else None)
        else None)"

text \<open>
  The \<open>while\<close> loops. Every pass that is not the last one either removes an order from
  the opposite queue or puts it back after the incoming quantity has dropped to zero,
  which is the measure of the termination proofs; it holds for every book, also one with
  resting quantities that are not positive.
\<close>

function processBuyOrder_loop :: "Order \<times> MatchingEngine \<Rightarrow> Order \<times> MatchingEngine" where
  "processBuyOrder_loop s =
     (case processBuyOrder_body s of None \<Rightarrow> s | Some s' \<Rightarrow> processBuyOrder_loop s')"
  by pat_completeness auto
termination
proof (relation "measure (\<lambda>(b, eng). 2 * length (sellOrders (orderBook eng))
                                      + (if quantity b > 0 then 1 else 0))")
  show "wf (measure (\<lambda>(b, eng). 2 * length (sellOrders (orderBook eng))
                                      + (if quantity b > 0 then 1 else 0)))"
    by simp
next
  fix s s' :: "Order \<times> MatchingEngine"
  assume body: "processBuyOrder_body s = Some s'"
  have best_mem: "pq_best cmp b ys \<in> set (b # ys)" for cmp and b :: Order and ys
    by (induction ys arbitrary: b) auto
  obtain b eng where s: "s = (b, eng)" by (cases s)
  from body s obtain t where
    top: "pq_top SellOrderComparator (sellOrders (orderBook eng)) = Some t" and
    pos: "quantity b > 0"
    by (auto simp: processBuyOrder_body_def peekTopSellOrder_def split: if_splits option.splits)
  from top have "t \<in> set (sellOrders (orderBook eng))"
    using best_mem by (auto simp: pq_top_def split: list.splits)
  then have len: "Suc (length (remove1 t (sellOrders (orderBook eng))))
                  = length (sellOrders (orderBook eng))"
    by (simp add: length_remove1) (cases "sellOrders (orderBook eng)"; simp)
  from body s top pos len show "(s', s) \<in> measure (\<lambda>(b, eng). 2 * length (sellOrders (orderBook eng))
                                      + (if quantity b > 0 then 1 else 0))"
    by (auto simp: processBuyOrder_body_def peekTopSellOrder_def getTopSellOrder_def
          pq_pop_def addSellOrder_def pq_push_def Let_def min_def
        split: if_splits option.splits)
qed

function processSellOrder_loop :: "Order \<times> MatchingEngine \<Rightarrow> Order \<times> MatchingEngine" where
  "processSellOrder_loop s =
     (case processSellOrder_body s of None \<Rightarrow> s | Some s' \<Rightarrow> processSellOrder_loop s')"
  by pat_completeness auto
termination
proof (relation "measure (\<lambda>(b, eng). 2 * length (buyOrders (orderBook eng))
                                      + (if quantity b > 0 then 1 else 0))")
  show "wf (measure (\<lambda>(b, eng). 2 * length (buyOrders (orderBook eng))
                                      + (if quantity b > 0 then 1 else 0)))"
    by simp
next
  fix s s' :: "Order \<times> MatchingEngine"
  assume body: "processSellOrder_body s = Some s'"
  have best_mem: "pq_best cmp b ys \<in> set (b # ys)" for cmp and b :: Order and ys
    by (induction ys arbitrary: b) auto
  obtain b eng where s: "s = (b, eng)" by (cases s)
  from body s obtain t where
    top: "pq_top BuyOrderComparator (buyOrders (orderBook eng)) = Some t" and
    pos: "quantity b > 0"
    by (auto simp: processSellOrder_body_def peekTopBuyOrder_def split: if_splits option.splits)
  from top have "t \<in> set (buyOrders (orderBook eng))"
    using best_mem by (auto simp: pq_top_def split: list.splits)
  then have len: "Suc (length (remove1 t (buyOrders (orderBook eng))))
                  = length (buyOrders (orderBook eng))"
    by (simp add: length_remove1) (cases "buyOrders (orderBook eng)"; simp)
  from body s top pos len show "(s', s) \<in> measure (\<lambda>(b, eng). 2 * length (buyOrders (orderBook eng))
                                      + (if quantity b > 0 then 1 else 0))"
    by (auto simp: processSellOrder_body_def peekTopBuyOrder_def getTopBuyOrder_def
          pq_pop_def addBuyOrder_def pq_push_def Let_def min_def
        split: if_splits option.splits)
qed

text \<open>\<open>processBuyOrder\<close> and \<open>processSellOrder\<close>: the loop, then the remainder is rested.\<close>

definition processBuyOrder :: "Order \<Rightarrow> MatchingEngine \<Rightarrow> MatchingEngine" where
  "processBuyOrder order eng =
     (case processBuyOrder_loop (order, eng) of
        (buyOrder, eng1) \<Rightarrow>
          if quantity buyOrder > 0
          then eng1\<lparr>orderBook := addBuyOrder buyOrder (orderBook eng1)\<rparr>
          else eng1)"

definition processSellOrder :: "Order \<Rightarrow> MatchingEngine \<Rightarrow> MatchingEngine" where
  "processSellOrder order eng =
     (case processSellOrder_loop (order, eng) of
        (sellOrder, eng1) \<Rightarrow>
          if quantity sellOrder > 0
          then eng1\<lparr>orderBook := addSellOrder sellOrder (orderBook eng1)\<rparr>
          else eng1)"

text \<open>\<open>processOrder\<close>: the risk check, then the dispatch on \<open>type\<close>. Every \<open>type\<close> other
  than \<open>"buy"\<close> takes the \<open>else\<close> branch.\<close>

definition processOrder :: "Order \<Rightarrow> MatchingEngine \<Rightarrow> MatchingEngine" where
  "processOrder newOrder eng =
     (if quantity newOrder > 1000
      then eng\<lparr>cout := cout eng @ [OrderRejected (quantity newOrder)]\<rparr>
      else
        let eng1 = eng\<lparr>cout := cout eng @ [ProcessingNewOrder newOrder]\<rparr>
        in if type newOrder = ''buy''
           then processBuyOrder newOrder eng1
           else processSellOrder newOrder eng1)"

text \<open>\<open>processOrder\<close> is declared \<open>void\<close>: what a call hands to its caller is no value
  (the unit value) together with the updated engine.\<close>

definition processOrder_call :: "Order \<Rightarrow> MatchingEngine \<Rightarrow> unit \<times> MatchingEngine" where
  "processOrder_call newOrder eng = ((), processOrder newOrder eng)"

text \<open>The engine as its constructor leaves it, and a sequence of submissions: the calls
  of \<open>processOrder\<close> that \<open>main\<close> and \<open>generateRandomOrders\<close> make one after the other.\<close>

definition new_engine :: MatchingEngine where
  "new_engine = \<lparr>orderBook = \<lparr>buyOrders = [], sellOrders = []\<rparr>, tradeLogger = [], cout = []\<rparr>"

fun processOrders :: "Order list \<Rightarrow> MatchingEngine \<Rightarrow> MatchingEngine" where
  "processOrders [] eng = eng"
| "processOrders (order # rest) eng = processOrders rest (processOrder order eng)"

text \<open>
  Menu entry 1 of \<open>main\<close> ("Place new order"): the three checks on what was typed, then the
  order is built with the next \<open>orderCounter\<close> and the current time \<open>now\<close> and handed to
  the engine. A failed check leaves the \<open>switch\<close> before anything else is read.
\<close>

record Session =
  engine :: MatchingEngine
  orderCounter :: int

definition say :: "message \<Rightarrow> Session \<Rightarrow> Session" where
  "say m sess = sess\<lparr>engine := (engine sess)\<lparr>cout := cout (engine sess) @ [m]\<rparr>\<rparr>"

definition main_place_order :: "string \<Rightarrow> real \<Rightarrow> int \<Rightarrow> int \<Rightarrow> Session \<Rightarrow> Session" where
  "main_place_order ty p q now sess =
     (if ty \<noteq> ''buy'' \<and> ty \<noteq> ''sell'' then say InvalidOrderType sess
      else if p \<le> 0 then say InvalidPrice sess
      else if q \<le> 0 then say InvalidQuantity sess
      else sess\<lparr>engine :=
                   processOrder (mkOrder (orderCounter sess) ty p q now) (engine sess),
                 orderCounter := orderCounter sess + 1\<rparr>)"

section \<open>Properties of books, trade logs and loops\<close>

text \<open>The total quantity resting in one queue, and the total quantity of a list of trades.\<close>

definition resting_qty :: "Order list \<Rightarrow> int" where
  "resting_qty c = sum_list (map quantity c)"

definition traded_qty :: "Trade list \<Rightarrow> int" where
  "traded_qty ts = sum_list (map trade_quantity ts)"

text \<open>Every order of a queue has a positive working quantity; every order of the book has
  a working quantity between 1 and 1000.\<close>

definition positive_qty :: "Order list \<Rightarrow> bool" where
  "positive_qty c = list_all (\<lambda>order. 0 < quantity order) c"

definition book_wf :: "OrderBook \<Rightarrow> bool" where
  "book_wf book =
     (list_all (\<lambda>order. 0 < quantity order \<and> quantity order \<le> 1000) (buyOrders book) \<and>
      list_all (\<lambda>order. 0 < quantity order \<and> quantity order \<le> 1000) (sellOrders book))"

text \<open>The book is uncrossed: a side is empty, or the best bid is priced strictly below the
  best ask. \<open>uncrossed_all\<close> says the same of every bid and every ask (lemma
  \<open>uncrossed_iff\<close>).\<close>

definition uncrossed :: "OrderBook \<Rightarrow> bool" where
  "uncrossed book =
     (\<not> hasBuyOrders book \<or> \<not> hasSellOrders book \<or>
      (case (peekTopBuyOrder book, peekTopSellOrder book) of
         (Some bestBid, Some bestAsk) \<Rightarrow> price bestBid < price bestAsk
       | _ \<Rightarrow> False))"

definition uncrossed_all :: "OrderBook \<Rightarrow> bool" where
  "uncrossed_all book =
     (\<forall>bid\<in>set (buyOrders book). \<forall>ask\<in>set (sellOrders book). price bid < price ask)"

text \<open>The trades logged between an engine state and a later one.\<close>

definition emitted :: "MatchingEngine \<Rightarrow> MatchingEngine \<Rightarrow> Trade list" where
  "emitted eng eng' = drop (length (tradeLogger eng)) (tradeLogger eng')"

text \<open>A loop run for at most \<open>n + 1\<close> evaluations of its condition, that is at most \<open>n\<close>
  passes through its body: \<open>None\<close> when it would need a further pass.\<close>

fun loop_within :: "nat \<Rightarrow> ('s \<Rightarrow> 's option) \<Rightarrow> 's \<Rightarrow> 's option" where
  "loop_within 0 body s = (case body s of None \<Rightarrow> Some s | Some s' \<Rightarrow> None)"
| "loop_within (Suc n) body s =
     (case body s of None \<Rightarrow> Some s | Some s' \<Rightarrow> loop_within n body s')"

text \<open>
  An order is admitted when it passes the risk check of \<open>processOrder\<close> and the test
  \<open>quantity > 0\<close> that \<open>processBuyOrder\<close> and \<open>processSellOrder\<close> put before every match and
  before resting an order: an order of more than 1000 units is rejected, and an order
  without a positive quantity is dropped, neither matched nor rested. The admitted
  quantity of a sequence of submissions, by the side \<open>processOrder\<close> dispatches them to.
\<close>

definition admitted :: "Order \<Rightarrow> bool" where
  "admitted order = (\<not> quantity order > 1000 \<and> quantity order > 0)"

definition admitted_buy_qty :: "Order list \<Rightarrow> int" where
  "admitted_buy_qty submissions =
     sum_list (map quantity
       (filter (\<lambda>order. admitted order \<and> type order = ''buy'') submissions))"

definition admitted_sell_qty :: "Order list \<Rightarrow> int" where
  "admitted_sell_qty submissions =
     sum_list (map quantity
       (filter (\<lambda>order. admitted order \<and> type order \<noteq> ''buy'') submissions))"

text \<open>
  The invariant of the loop of \<open>processBuyOrder\<close>, between the state \<open>(b0, eng0)\<close> at its
  start and a later state: the incoming order changes in its quantity only, the bid side
  is untouched, the console has one more line for each trade logged since, every resting
  ask is an ask of the start with a quantity that has not grown, every trade logged since
  is between the incoming order and an ask of the start at that ask's price, and the
  quantities add up.
  \<open>sell_inv\<close> is its mirror image for \<open>processSellOrder\<close>.
\<close>

definition buy_inv :: "Order \<Rightarrow> MatchingEngine \<Rightarrow> Order \<times> MatchingEngine \<Rightarrow> bool" where
  "buy_inv b0 eng0 s =
     (case s of (b, eng) \<Rightarrow>
        (\<exists>r. b = b0\<lparr>quantity := r\<rparr>)
      \<and> (0 \<le> quantity b0 \<longrightarrow> 0 \<le> quantity b)
      \<and> buyOrders (orderBook eng) = buyOrders (orderBook eng0)
      \<and> cout eng = cout eng0 @ map TradeExecuted (emitted eng0 eng)
      \<and> (\<forall>s\<in>set (sellOrders (orderBook eng)). \<exists>s0\<in>set (sellOrders (orderBook eng0)).
            \<exists>r. s = s0\<lparr>quantity := r\<rparr>
               \<and> (positive_qty (sellOrders (orderBook eng0)) \<longrightarrow> r \<le> quantity s0))
      \<and> (positive_qty (sellOrders (orderBook eng0))
            \<longrightarrow> positive_qty (sellOrders (orderBook eng)) \<and> quantity b \<le> quantity b0)
      \<and> tradeLogger eng = tradeLogger eng0 @ emitted eng0 eng
      \<and> (\<forall>tr\<in>set (emitted eng0 eng).
            buyOrderID tr = orderID b0 \<and> trade_price tr \<le> price b0 \<and>
            (\<exists>s0\<in>set (sellOrders (orderBook eng0)).
               sellOrderID tr = orderID s0 \<and> trade_price tr = price s0))
      \<and> quantity b + traded_qty (emitted eng0 eng) = quantity b0
      \<and> resting_qty (sellOrders (orderBook eng)) + traded_qty (emitted eng0 eng)
          = resting_qty (sellOrders (orderBook eng0)))"

definition sell_inv :: "Order \<Rightarrow> MatchingEngine \<Rightarrow> Order \<times> MatchingEngine \<Rightarrow> bool" where
  "sell_inv b0 eng0 s =
     (case s of (b, eng) \<Rightarrow>
        (\<exists>r. b = b0\<lparr>quantity := r\<rparr>)
      \<and> (0 \<le> quantity b0 \<longrightarrow> 0 \<le> quantity b)
      \<and> sellOrders (orderBook eng) = sellOrders (orderBook eng0)
      \<and> cout eng = cout eng0 @ map TradeExecuted (emitted eng0 eng)
      \<and> (\<forall>s\<in>set (buyOrders (orderBook eng)). \<exists>s0\<in>set (buyOrders (orderBook eng0)).
            \<exists>r. s = s0\<lparr>quantity := r\<rparr>
               \<and> (positive_qty (buyOrders (orderBook eng0)) \<longrightarrow> r \<le> quantity s0))
      \<and> (positive_qty (buyOrders (orderBook eng0))
            \<longrightarrow> positive_qty (buyOrders (orderBook eng)) \<and> quantity b \<le> quantity b0)
      \<and> tradeLogger eng = tradeLogger eng0 @ emitted eng0 eng
      \<and> (\<forall>tr\<in>set (emitted eng0 eng).
            sellOrderID tr = orderID b0 \<and> price b0 \<le> trade_price tr \<and>
            (\<exists>s0\<in>set (buyOrders (orderBook eng0)).
               buyOrderID tr = orderID s0 \<and> trade_price tr = price s0))
      \<and> quantity b + traded_qty (emitted eng0 eng) = quantity b0
      \<and> resting_qty (buyOrders (orderBook eng)) + traded_qty (emitted eng0 eng)
          = resting_qty (buyOrders (orderBook eng0)))"

subsection \<open>Example sessions\<close>

text \<open>Three asks at 99, 100 and 101, then a buy of 25 at 100.50 that walks the book.\<close>

definition walk_the_book :: "Order list" where
  "walk_the_book =
     [mkOrder 1 ''sell'' 99 10 1, mkOrder 2 ''sell'' 100 10 2, mkOrder 3 ''sell'' 101 10 3,
      mkOrder 4 ''buy'' (201 / 2) 25 4]"

text \<open>An engine with a bid of 50 at 100 and an ask of 50 at 101.\<close>

definition two_sided :: MatchingEngine where
  "two_sided =
     processOrders [mkOrder 1 ''buy'' 100 50 1, mkOrder 2 ''sell'' 101 50 2] new_engine"

text \<open>An engine with two bids at 99 and two asks at 100, each pair in the order of its
  timestamps.\<close>

definition queued :: MatchingEngine where
  "queued =
     processOrders [mkOrder 1 ''buy'' 99 10 1, mkOrder 2 ''buy'' 99 10 2,
                    mkOrder 3 ''sell'' 100 10 3, mkOrder 4 ''sell'' 100 10 4] new_engine"

text \<open>Two asks of 10 at 100 with the same timestamp, then two buys of 5 at 100.\<close>

definition tied_asks :: "Order list" where
  "tied_asks =
     [mkOrder 1 ''sell'' 100 10 1, mkOrder 2 ''sell'' 100 10 1, mkOrder 3 ''buy'' 100 5 2,
      mkOrder 4 ''buy'' 100 5 3]"

section \<open>Lemmas\<close>

declare processBuyOrder_loop.simps [simp del] processSellOrder_loop.simps [simp del]

subsection \<open>The priority queue returns a best element\<close>

lemma pq_best_mem: "pq_best cmp b ys \<in> set (b # ys)"
  by (induction ys arbitrary: b) auto

lemma pq_top_mem: "pq_top cmp c = Some x \<Longrightarrow> x \<in> set c"
  using pq_best_mem [of cmp] by (auto simp: pq_top_def split: list.splits)

lemma pq_top_None [simp]: "pq_top cmp c = None \<longleftrightarrow> c = []"
  by (simp add: pq_top_def split: list.splits)

lemma pq_best_max:
  assumes trans: "\<And>x y z. cmp x y \<Longrightarrow> cmp y z \<Longrightarrow> cmp x z"
    and negtrans: "\<And>x y z. cmp x z \<Longrightarrow> cmp x y \<or> cmp y z"
    and irrefl: "\<And>x. \<not> cmp x x"
  shows "y \<in> set (b # ys) \<Longrightarrow> \<not> cmp (pq_best cmp b ys) y"
proof (induction ys arbitrary: b y)
  case Nil
  then show ?case by (simp add: irrefl)
next
  case (Cons a ys)
  let ?b' = "if cmp b a then a else b"
  have IH: "\<And>z. z \<in> set (?b' # ys) \<Longrightarrow> \<not> cmp (pq_best cmp ?b' ys) z"
    using Cons.IH by blast
  have r: "\<not> cmp (pq_best cmp ?b' ys) ?b'" by (rule IH) simp
  show ?case
  proof (cases "y \<in> set ys")
    case True
    then show ?thesis using IH [of y] by simp
  next
    case False
    with Cons.prems have "y = b \<or> y = a" by auto
    then show ?thesis
    proof
      assume "y = b"
      show ?thesis
      proof (cases "cmp b a")
        case True
        with r have "\<not> cmp (pq_best cmp a ys) a" by simp
        with True trans [of "pq_best cmp a ys" b a] \<open>y = b\<close> show ?thesis by auto
      next
        case False
        with r \<open>y = b\<close> show ?thesis by simp
      qed
    next
      assume "y = a"
      show ?thesis
      proof (cases "cmp b a")
        case True
        with r \<open>y = a\<close> show ?thesis by simp
      next
        case False
        with r have "\<not> cmp (pq_best cmp b ys) b" by simp
        with False negtrans [of "pq_best cmp b ys" a b] \<open>y = a\<close> show ?thesis by auto
      qed
    qed
  qed
qed

lemma sell_top_best:
  assumes "pq_top SellOrderComparator c = Some t" and "y \<in> set c"
  shows "price t \<le> price y \<and> (price y = price t \<longrightarrow> timestamp t \<le> timestamp y)"
proof -
  from assms obtain x xs where c: "c = x # xs" and t: "t = pq_best SellOrderComparator x xs"
    by (auto simp: pq_top_def split: list.splits)
  have "\<not> SellOrderComparator t y"
    unfolding t using assms(2) unfolding c
    by (rule pq_best_max [rotated 3]) (auto simp: SellOrderComparator_def split: if_splits)
  then show ?thesis by (auto simp: SellOrderComparator_def split: if_splits)
qed

lemma buy_top_best:
  assumes "pq_top BuyOrderComparator c = Some t" and "y \<in> set c"
  shows "price y \<le> price t \<and> (price y = price t \<longrightarrow> timestamp t \<le> timestamp y)"
proof -
  from assms obtain x xs where c: "c = x # xs" and t: "t = pq_best BuyOrderComparator x xs"
    by (auto simp: pq_top_def split: list.splits)
  have "\<not> BuyOrderComparator t y"
    unfolding t using assms(2) unfolding c
    by (rule pq_best_max [rotated 3]) (auto simp: BuyOrderComparator_def split: if_splits)
  then show ?thesis by (auto simp: BuyOrderComparator_def split: if_splits)
qed

subsection \<open>One pass of the loops\<close>

lemma peek_defined:
  "hasSellOrders book \<Longrightarrow> peekTopSellOrder book \<noteq> None \<and> getTopSellOrder book \<noteq> None"
  "hasBuyOrders book \<Longrightarrow> peekTopBuyOrder book \<noteq> None \<and> getTopBuyOrder book \<noteq> None"
  by (auto simp: hasSellOrders_def hasBuyOrders_def peekTopSellOrder_def peekTopBuyOrder_def
        getTopSellOrder_def getTopBuyOrder_def pq_pop_def split: option.splits)

lemma processBuyOrder_body_Some:
  assumes "processBuyOrder_body (b, eng) = Some (b', eng')"
  obtains t q where
    "pq_top SellOrderComparator (sellOrders (orderBook eng)) = Some t"
    "t \<in> set (sellOrders (orderBook eng))"
    "0 < quantity b" "price t \<le> price b"
    "q = min (quantity b) (quantity t)"
    "b' = b\<lparr>quantity := quantity b - q\<rparr>"
    "buyOrders (orderBook eng') = buyOrders (orderBook eng)"
    "sellOrders (orderBook eng') =
       (if 0 < quantity t - q
        then remove1 t (sellOrders (orderBook eng)) @ [t\<lparr>quantity := quantity t - q\<rparr>]
        else remove1 t (sellOrders (orderBook eng)))"
    "tradeLogger eng' = tradeLogger eng @
       [\<lparr>buyOrderID = orderID b, sellOrderID = orderID t, trade_price = price t,
         trade_quantity = q\<rparr>]"
    "cout eng' = cout eng @
       [TradeExecuted \<lparr>buyOrderID = orderID b, sellOrderID = orderID t, trade_price = price t,
         trade_quantity = q\<rparr>]"
proof -
  from assms obtain t where
    top: "pq_top SellOrderComparator (sellOrders (orderBook eng)) = Some t"
    by (auto simp: processBuyOrder_body_def peekTopSellOrder_def split: if_splits option.splits)
  note mem = pq_top_mem [OF top]
  show thesis
    using assms top mem
    by (intro that [of t "min (quantity b) (quantity t)"])
       (auto simp: processBuyOrder_body_def peekTopSellOrder_def getTopSellOrder_def
          pq_pop_def addSellOrder_def pq_push_def logTrade_def Let_def
          split: if_splits)
qed

lemma processBuyOrder_body_None:
  "processBuyOrder_body (b, eng) = None \<longleftrightarrow>
     quantity b \<le> 0 \<or> sellOrders (orderBook eng) = [] \<or>
     (\<exists>t. pq_top SellOrderComparator (sellOrders (orderBook eng)) = Some t \<and> price b < price t)"
  by (auto simp: processBuyOrder_body_def peekTopSellOrder_def getTopSellOrder_def
        hasSellOrders_def pq_pop_def Let_def split: option.splits)

lemma processSellOrder_body_Some:
  assumes "processSellOrder_body (b, eng) = Some (b', eng')"
  obtains t q where
    "pq_top BuyOrderComparator (buyOrders (orderBook eng)) = Some t"
    "t \<in> set (buyOrders (orderBook eng))"
    "0 < quantity b" "price b \<le> price t"
    "q = min (quantity b) (quantity t)"
    "b' = b\<lparr>quantity := quantity b - q\<rparr>"
    "sellOrders (orderBook eng') = sellOrders (orderBook eng)"
    "buyOrders (orderBook eng') =
       (if 0 < quantity t - q
        then remove1 t (buyOrders (orderBook eng)) @ [t\<lparr>quantity := quantity t - q\<rparr>]
        else remove1 t (buyOrders (orderBook eng)))"
    "tradeLogger eng' = tradeLogger eng @
       [\<lparr>buyOrderID = orderID t, sellOrderID = orderID b, trade_price = price t,
         trade_quantity = q\<rparr>]"
    "cout eng' = cout eng @
       [TradeExecuted \<lparr>buyOrderID = orderID t, sellOrderID = orderID b, trade_price = price t,
         trade_quantity = q\<rparr>]"
proof -
  from assms obtain t where
    top: "pq_top BuyOrderComparator (buyOrders (orderBook eng)) = Some t"
    by (auto simp: processSellOrder_body_def peekTopBuyOrder_def split: if_splits option.splits)
  note mem = pq_top_mem [OF top]
  show thesis
    using assms top mem
    by (intro that [of t "min (quantity b) (quantity t)"])
       (auto simp: processSellOrder_body_def peekTopBuyOrder_def getTopBuyOrder_def
          pq_pop_def addBuyOrder_def pq_push_def logTrade_def Let_def
          split: if_splits)
qed

lemma processSellOrder_body_None:
  "processSellOrder_body (b, eng) = None \<longleftrightarrow>
     quantity b \<le> 0 \<or> buyOrders (orderBook eng) = [] \<or>
     (\<exists>t. pq_top BuyOrderComparator (buyOrders (orderBook eng)) = Some t \<and> price t < price b)"
  by (auto simp: processSellOrder_body_def peekTopBuyOrder_def getTopBuyOrder_def
        hasBuyOrders_def pq_pop_def Let_def split: option.splits)

subsection \<open>The loops\<close>

lemma processBuyOrder_loop_invariant:
  assumes "I s" and "\<And>s s'. I s \<Longrightarrow> processBuyOrder_body s = Some s' \<Longrightarrow> I s'"
  shows "I (processBuyOrder_loop s)"
  using assms(1)
proof (induction s rule: processBuyOrder_loop.induct)
  case (1 s)
  show ?case
  proof (cases "processBuyOrder_body s")
    case None
    with "1.prems" show ?thesis by (simp add: processBuyOrder_loop.simps [of s])
  next
    case (Some s')
    with "1.IH" [OF Some] assms(2) [OF "1.prems" Some] show ?thesis
      by (simp add: processBuyOrder_loop.simps [of s])
  qed
qed

lemma processBuyOrder_loop_exit: "processBuyOrder_body (processBuyOrder_loop s) = None"
proof (induction s rule: processBuyOrder_loop.induct)
  case (1 s)
  then show ?case
    by (cases "processBuyOrder_body s") (simp_all add: processBuyOrder_loop.simps [of s])
qed

lemma processSellOrder_loop_invariant:
  assumes "I s" and "\<And>s s'. I s \<Longrightarrow> processSellOrder_body s = Some s' \<Longrightarrow> I s'"
  shows "I (processSellOrder_loop s)"
  using assms(1)
proof (induction s rule: processSellOrder_loop.induct)
  case (1 s)
  show ?case
  proof (cases "processSellOrder_body s")
    case None
    with "1.prems" show ?thesis by (simp add: processSellOrder_loop.simps [of s])
  next
    case (Some s')
    with "1.IH" [OF Some] assms(2) [OF "1.prems" Some] show ?thesis
      by (simp add: processSellOrder_loop.simps [of s])
  qed
qed

lemma processSellOrder_loop_exit: "processSellOrder_body (processSellOrder_loop s) = None"
proof (induction s rule: processSellOrder_loop.induct)
  case (1 s)
  then show ?case
    by (cases "processSellOrder_body s") (simp_all add: processSellOrder_loop.simps [of s])
qed

subsection \<open>Quantities, and the invariants of the loops\<close>

lemma emitted_self [simp]: "emitted eng eng = []"
  by (simp add: emitted_def)

lemma emitted_append:
  "tradeLogger eng = tradeLogger eng0 @ new \<Longrightarrow> emitted eng0 eng = new"
  by (simp add: emitted_def)

lemma traded_qty_simps [simp]:
  "traded_qty [] = 0" "traded_qty (ts @ [tr]) = traded_qty ts + trade_quantity tr"
  by (simp_all add: traded_qty_def)

lemma traded_qty_append: "traded_qty (ts @ us) = traded_qty ts + traded_qty us"
  by (simp add: traded_qty_def)

lemma resting_qty_simps [simp]:
  "resting_qty [] = 0" "resting_qty (c @ [x]) = resting_qty c + quantity x"
  by (simp_all add: resting_qty_def)

lemma resting_qty_remove1:
  "t \<in> set c \<Longrightarrow> resting_qty (remove1 t c) = resting_qty c - quantity t"
  by (simp add: resting_qty_def sum_list_map_remove1)

lemma positive_qty_remove1: "positive_qty c \<Longrightarrow> positive_qty (remove1 t c)"
  by (auto simp: positive_qty_def list_all_iff dest: notin_set_remove1)

lemma positive_qty_mem: "positive_qty c \<Longrightarrow> x \<in> set c \<Longrightarrow> 0 < quantity x"
  by (simp add: positive_qty_def list_all_iff)

lemma positive_qty_snoc [simp]: "positive_qty (c @ [x]) \<longleftrightarrow> positive_qty c \<and> 0 < quantity x"
  by (auto simp: positive_qty_def)

lemma positive_qty_resting: "positive_qty c \<Longrightarrow> 0 \<le> resting_qty c"
  by (induction c) (auto simp: positive_qty_def resting_qty_def)

lemma buy_inv_init: "buy_inv b0 eng0 (b0, eng0)"
proof -
  have "\<exists>r. b0 = b0\<lparr>quantity := r\<rparr>" by (rule exI [of _ "quantity b0"]) simp
  moreover have "\<forall>s\<in>set (sellOrders (orderBook eng0)). \<exists>s0\<in>set (sellOrders (orderBook eng0)).
            \<exists>r. s = s0\<lparr>quantity := r\<rparr>
               \<and> (positive_qty (sellOrders (orderBook eng0)) \<longrightarrow> r \<le> quantity s0)"
  proof
    fix s assume "s \<in> set (sellOrders (orderBook eng0))"
    moreover have "s = s\<lparr>quantity := quantity s\<rparr>" by simp
    ultimately show "\<exists>s0\<in>set (sellOrders (orderBook eng0)). \<exists>r. s = s0\<lparr>quantity := r\<rparr>
               \<and> (positive_qty (sellOrders (orderBook eng0)) \<longrightarrow> r \<le> quantity s0)"
      by (intro bexI [of _ s] exI [of _ "quantity s"]) simp_all
  qed
  ultimately show ?thesis by (simp add: buy_inv_def)
qed

lemma buy_inv_step:
  assumes inv: "buy_inv b0 eng0 s" and body: "processBuyOrder_body s = Some s'"
  shows "buy_inv b0 eng0 s'"
proof -
  obtain b eng where s: "s = (b, eng)" by (cases s)
  obtain b' eng' where s': "s' = (b', eng')" by (cases s')
  from body [unfolded s s'] obtain t q where
    top: "pq_top SellOrderComparator (sellOrders (orderBook eng)) = Some t" and
    mem: "t \<in> set (sellOrders (orderBook eng))" and
    pos: "0 < quantity b" and lim: "price t \<le> price b" and
    q: "q = min (quantity b) (quantity t)" and
    b': "b' = b\<lparr>quantity := quantity b - q\<rparr>" and
    buys: "buyOrders (orderBook eng') = buyOrders (orderBook eng)" and
    sells: "sellOrders (orderBook eng') =
       (if 0 < quantity t - q
        then remove1 t (sellOrders (orderBook eng)) @ [t\<lparr>quantity := quantity t - q\<rparr>]
        else remove1 t (sellOrders (orderBook eng)))" and
    log: "tradeLogger eng' = tradeLogger eng @
       [\<lparr>buyOrderID = orderID b, sellOrderID = orderID t, trade_price = price t, trade_quantity = q\<rparr>]" and
    out: "cout eng' = cout eng @ [TradeExecuted \<lparr>buyOrderID = orderID b, sellOrderID = orderID t, trade_price = price t, trade_quantity = q\<rparr>]"
    by (rule processBuyOrder_body_Some)
  from inv s have
    i1: "\<exists>r. b = b0\<lparr>quantity := r\<rparr>" and
    i2: "0 \<le> quantity b0 \<longrightarrow> 0 \<le> quantity b" and
    i3: "buyOrders (orderBook eng) = buyOrders (orderBook eng0)" and
    i4: "cout eng = cout eng0 @ map TradeExecuted (emitted eng0 eng)" and
    i5: "\<forall>s\<in>set (sellOrders (orderBook eng)). \<exists>s0\<in>set (sellOrders (orderBook eng0)).
            \<exists>r. s = s0\<lparr>quantity := r\<rparr>
               \<and> (positive_qty (sellOrders (orderBook eng0)) \<longrightarrow> r \<le> quantity s0)" and
    i6: "positive_qty (sellOrders (orderBook eng0))
            \<longrightarrow> positive_qty (sellOrders (orderBook eng)) \<and> quantity b \<le> quantity b0" and
    i7: "tradeLogger eng = tradeLogger eng0 @ emitted eng0 eng" and
    i8: "\<forall>tr\<in>set (emitted eng0 eng).
            buyOrderID tr = orderID b0 \<and> trade_price tr \<le> price b0 \<and>
            (\<exists>s0\<in>set (sellOrders (orderBook eng0)).
               sellOrderID tr = orderID s0 \<and> trade_price tr = price s0)" and
    i9: "quantity b + traded_qty (emitted eng0 eng) = quantity b0" and
    i10: "resting_qty (sellOrders (orderBook eng)) + traded_qty (emitted eng0 eng)
          = resting_qty (sellOrders (orderBook eng0))"
    by (simp_all add: buy_inv_def)
  from i5 mem obtain t0 r0 where t0: "t0 \<in> set (sellOrders (orderBook eng0))"
    and tt0: "t = t0\<lparr>quantity := r0\<rparr>"
    and r0: "positive_qty (sellOrders (orderBook eng0)) \<longrightarrow> r0 \<le> quantity t0" by blast
  have idp: "orderID t = orderID t0" "price t = price t0" "quantity t = r0"
    using tt0 by auto
  have idb: "orderID b = orderID b0" "price b = price b0"
    using i1 by auto
  let ?tr = "\<lparr>buyOrderID = orderID b, sellOrderID = orderID t, trade_price = price t, trade_quantity = q\<rparr>"
  have em: "emitted eng0 eng' = emitted eng0 eng @ [?tr]"
    by (rule emitted_append) (simp add: log i7 [symmetric])
  have qle: "q \<le> quantity b" "q \<le> quantity t" by (simp_all add: q)
  have qpos: "0 < q" if "positive_qty (sellOrders (orderBook eng0))"
    using that i6 positive_qty_mem [OF _ mem] pos by (simp add: q)
  have c1: "\<exists>r. b' = b0\<lparr>quantity := r\<rparr>"
    using i1 by (auto simp: b')
  have c4: "cout eng' = cout eng0 @ map TradeExecuted (emitted eng0 eng')"
    by (simp add: out i4 em)
  have c2: "0 \<le> quantity b0 \<longrightarrow> 0 \<le> quantity b'"
    using qle by (simp add: b')
  have c5: "\<forall>s\<in>set (sellOrders (orderBook eng')). \<exists>s0\<in>set (sellOrders (orderBook eng0)).
            \<exists>r. s = s0\<lparr>quantity := r\<rparr>
               \<and> (positive_qty (sellOrders (orderBook eng0)) \<longrightarrow> r \<le> quantity s0)"
  proof
    fix s assume "s \<in> set (sellOrders (orderBook eng'))"
    then have "s \<in> set (sellOrders (orderBook eng)) \<or> s = t\<lparr>quantity := quantity t - q\<rparr>"
      using set_remove1_subset [of t "sellOrders (orderBook eng)"]
      by (auto simp: sells split: if_splits)
    then show "\<exists>s0\<in>set (sellOrders (orderBook eng0)). \<exists>r. s = s0\<lparr>quantity := r\<rparr>
               \<and> (positive_qty (sellOrders (orderBook eng0)) \<longrightarrow> r \<le> quantity s0)"
    proof
      assume "s \<in> set (sellOrders (orderBook eng))"
      with i5 show ?thesis by blast
    next
      assume "s = t\<lparr>quantity := quantity t - q\<rparr>"
      with tt0 have "s = t0\<lparr>quantity := r0 - q\<rparr>" by simp
      moreover have "positive_qty (sellOrders (orderBook eng0)) \<longrightarrow> r0 - q \<le> quantity t0"
        using r0 qpos by auto
      ultimately show ?thesis using t0 by blast
    qed
  qed
  have c6: "positive_qty (sellOrders (orderBook eng0))
            \<longrightarrow> positive_qty (sellOrders (orderBook eng')) \<and> quantity b' \<le> quantity b0"
    using i6 qpos by (auto simp: sells b' intro: positive_qty_remove1)
  have c7: "tradeLogger eng' = tradeLogger eng0 @ emitted eng0 eng'"
    by (simp add: em log i7 [symmetric])
  have c8: "\<forall>tr\<in>set (emitted eng0 eng').
            buyOrderID tr = orderID b0 \<and> trade_price tr \<le> price b0 \<and>
            (\<exists>s0\<in>set (sellOrders (orderBook eng0)).
               sellOrderID tr = orderID s0 \<and> trade_price tr = price s0)"
    using i8 t0 lim by (auto simp: em idp idb)
  have c9: "quantity b' + traded_qty (emitted eng0 eng') = quantity b0"
    using i9 by (simp add: em b')
  have c10: "resting_qty (sellOrders (orderBook eng')) + traded_qty (emitted eng0 eng')
          = resting_qty (sellOrders (orderBook eng0))"
    using i10 qle by (auto simp: em sells resting_qty_remove1 [OF mem])
  show ?thesis
    unfolding s' buy_inv_def prod.case
    using c1 c2 c4 c5 c6 c7 c8 c9 c10 by (simp add: buys i3)
qed

lemma buy_inv_loop: "buy_inv b0 eng0 (processBuyOrder_loop (b0, eng0))"
  by (rule processBuyOrder_loop_invariant [where I = "buy_inv b0 eng0"])
     (rule buy_inv_init, rule buy_inv_step)

lemma sell_inv_init: "sell_inv b0 eng0 (b0, eng0)"
proof -
  have "\<exists>r. b0 = b0\<lparr>quantity := r\<rparr>" by (rule exI [of _ "quantity b0"]) simp
  moreover have "\<forall>s\<in>set (buyOrders (orderBook eng0)). \<exists>s0\<in>set (buyOrders (orderBook eng0)).
            \<exists>r. s = s0\<lparr>quantity := r\<rparr>
               \<and> (positive_qty (buyOrders (orderBook eng0)) \<longrightarrow> r \<le> quantity s0)"
  proof
    fix s assume "s \<in> set (buyOrders (orderBook eng0))"
    moreover have "s = s\<lparr>quantity := quantity s\<rparr>" by simp
    ultimately show "\<exists>s0\<in>set (buyOrders (orderBook eng0)). \<exists>r. s = s0\<lparr>quantity := r\<rparr>
               \<and> (positive_qty (buyOrders (orderBook eng0)) \<longrightarrow> r \<le> quantity s0)"
      by (intro bexI [of _ s] exI [of _ "quantity s"]) simp_all
  qed
  ultimately show ?thesis by (simp add: sell_inv_def)
qed

lemma sell_inv_step:
  assumes inv: "sell_inv b0 eng0 s" and body: "processSellOrder_body s = Some s'"
  shows "sell_inv b0 eng0 s'"
proof -
  obtain b eng where s: "s = (b, eng)" by (cases s)
  obtain b' eng' where s': "s' = (b', eng')" by (cases s')
  from body [unfolded s s'] obtain t q where
    top: "pq_top BuyOrderComparator (buyOrders (orderBook eng)) = Some t" and
    mem: "t \<in> set (buyOrders (orderBook eng))" and
    pos: "0 < quantity b" and lim: "price b \<le> price t" and
    q: "q = min (quantity b) (quantity t)" and
    b': "b' = b\<lparr>quantity := quantity b - q\<rparr>" and
    sells: "sellOrders (orderBook eng') = sellOrders (orderBook eng)" and
    buys: "buyOrders (orderBook eng') =
       (if 0 < quantity t - q
        then remove1 t (buyOrders (orderBook eng)) @ [t\<lparr>quantity := quantity t - q\<rparr>]
        else remove1 t (buyOrders (orderBook eng)))" and
    log: "tradeLogger eng' = tradeLogger eng @
       [\<lparr>buyOrderID = orderID t, sellOrderID = orderID b, trade_price = price t, trade_quantity = q\<rparr>]" and
    out: "cout eng' = cout eng @ [TradeExecuted \<lparr>buyOrderID = orderID t, sellOrderID = orderID b, trade_price = price t, trade_quantity = q\<rparr>]"
    by (rule processSellOrder_body_Some)
  from inv s have
    i1: "\<exists>r. b = b0\<lparr>quantity := r\<rparr>" and
    i2: "0 \<le> quantity b0 \<longrightarrow> 0 \<le> quantity b" and
    i3: "sellOrders (orderBook eng) = sellOrders (orderBook eng0)" and
    i4: "cout eng = cout eng0 @ map TradeExecuted (emitted eng0 eng)" and
    i5: "\<forall>s\<in>set (buyOrders (orderBook eng)). \<exists>s0\<in>set (buyOrders (orderBook eng0)).
            \<exists>r. s = s0\<lparr>quantity := r\<rparr>
               \<and> (positive_qty (buyOrders (orderBook eng0)) \<longrightarrow> r \<le> quantity s0)" and
    i6: "positive_qty (buyOrders (orderBook eng0))
            \<longrightarrow> positive_qty (buyOrders (orderBook eng)) \<and> quantity b \<le> quantity b0" and
    i7: "tradeLogger eng = tradeLogger eng0 @ emitted eng0 eng" and
    i8: "\<forall>tr\<in>set (emitted eng0 eng).
            sellOrderID tr = orderID b0 \<and> price b0 \<le> trade_price tr \<and>
            (\<exists>s0\<in>set (buyOrders (orderBook eng0)).
               buyOrderID tr = orderID s0 \<and> trade_price tr = price s0)" and
    i9: "quantity b + traded_qty (emitted eng0 eng) = quantity b0" and
    i10: "resting_qty (buyOrders (orderBook eng)) + traded_qty (emitted eng0 eng)
          = resting_qty (buyOrders (orderBook eng0))"
    by (simp_all add: sell_inv_def)
  from i5 mem obtain t0 r0 where t0: "t0 \<in> set (buyOrders (orderBook eng0))"
    and tt0: "t = t0\<lparr>quantity := r0\<rparr>"
    and r0: "positive_qty (buyOrders (orderBook eng0)) \<longrightarrow> r0 \<le> quantity t0" by blast
  have idp: "orderID t = orderID t0" "price t = price t0" "quantity t = r0"
    using tt0 by auto
  have idb: "orderID b = orderID b0" "price b = price b0"
    using i1 by auto
  let ?tr = "\<lparr>buyOrderID = orderID t, sellOrderID = orderID b, trade_price = price t, trade_quantity = q\<rparr>"
  have em: "emitted eng0 eng' = emitted eng0 eng @ [?tr]"
    by (rule emitted_append) (simp add: log i7 [symmetric])
  have qle: "q \<le> quantity b" "q \<le> quantity t" by (simp_all add: q)
  have qpos: "0 < q" if "positive_qty (buyOrders (orderBook eng0))"
    using that i6 positive_qty_mem [OF _ mem] pos by (simp add: q)
  have c1: "\<exists>r. b' = b0\<lparr>quantity := r\<rparr>"
    using i1 by (auto simp: b')
  have c4: "cout eng' = cout eng0 @ map TradeExecuted (emitted eng0 eng')"
    by (simp add: out i4 em)
  have c2: "0 \<le> quantity b0 \<longrightarrow> 0 \<le> quantity b'"
    using qle by (simp add: b')
  have c5: "\<forall>s\<in>set (buyOrders (orderBook eng')). \<exists>s0\<in>set (buyOrders (orderBook eng0)).
            \<exists>r. s = s0\<lparr>quantity := r\<rparr>
               \<and> (positive_qty (buyOrders (orderBook eng0)) \<longrightarrow> r \<le> quantity s0)"
  proof
    fix s assume "s \<in> set (buyOrders (orderBook eng'))"
    then have "s \<in> set (buyOrders (orderBook eng)) \<or> s = t\<lparr>quantity := quantity t - q\<rparr>"
      using set_remove1_subset [of t "buyOrders (orderBook eng)"]
      by (auto simp: buys split: if_splits)
    then show "\<exists>s0\<in>set (buyOrders (orderBook eng0)). \<exists>r. s = s0\<lparr>quantity := r\<rparr>
               \<and> (positive_qty (buyOrders (orderBook eng0)) \<longrightarrow> r \<le> quantity s0)"
    proof
      assume "s \<in> set (buyOrders (orderBook eng))"
      with i5 show ?thesis by blast
    next
      assume "s = t\<lparr>quantity := quantity t - q\<rparr>"
      with tt0 have "s = t0\<lparr>quantity := r0 - q\<rparr>" by simp
      moreover have "positive_qty (buyOrders (orderBook eng0)) \<longrightarrow> r0 - q \<le> quantity t0"
        using r0 qpos by auto
      ultimately show ?thesis using t0 by blast
    qed
  qed
  have c6: "positive_qty (buyOrders (orderBook eng0))
            \<longrightarrow> positive_qty (buyOrders (orderBook eng')) \<and> quantity b' \<le> quantity b0"
    using i6 qpos by (auto simp: buys b' intro: positive_qty_remove1)
  have c7: "tradeLogger eng' = tradeLogger eng0 @ emitted eng0 eng'"
    by (simp add: em log i7 [symmetric])
  have c8: "\<forall>tr\<in>set (emitted eng0 eng').
            sellOrderID tr = orderID b0 \<and> price b0 \<le> trade_price tr \<and>
            (\<exists>s0\<in>set (buyOrders (orderBook eng0)).
               buyOrderID tr = orderID s0 \<and> trade_price tr = price s0)"
    using i8 t0 lim by (auto simp: em idp idb)
  have c9: "quantity b' + traded_qty (emitted eng0 eng') = quantity b0"
    using i9 by (simp add: em b')
  have c10: "resting_qty (buyOrders (orderBook eng')) + traded_qty (emitted eng0 eng')
          = resting_qty (buyOrders (orderBook eng0))"
    using i10 qle by (auto simp: em buys resting_qty_remove1 [OF mem])
  show ?thesis
    unfolding s' sell_inv_def prod.case
    using c1 c2 c4 c5 c6 c7 c8 c9 c10 by (simp add: sells i3)
qed

lemma sell_inv_loop: "sell_inv b0 eng0 (processSellOrder_loop (b0, eng0))"
  by (rule processSellOrder_loop_invariant [where I = "sell_inv b0 eng0"])
     (rule sell_inv_init, rule sell_inv_step)

subsection \<open>Best bid below best ask, and every bid below every ask\<close>

lemma uncrossed_iff: "uncrossed book \<longleftrightarrow> uncrossed_all book"
proof (cases "buyOrders book = [] \<or> sellOrders book = []")
  case True
  then show ?thesis
    by (auto simp: uncrossed_def uncrossed_all_def hasBuyOrders_def hasSellOrders_def)
next
  case False
  then obtain bb ba where
    bb: "pq_top BuyOrderComparator (buyOrders book) = Some bb" and
    ba: "pq_top SellOrderComparator (sellOrders book) = Some ba"
    by (metis pq_top_None not_None_eq)
  have u: "uncrossed book \<longleftrightarrow> price bb < price ba"
    using False bb ba
    by (simp add: uncrossed_def hasBuyOrders_def hasSellOrders_def peekTopBuyOrder_def
          peekTopSellOrder_def)
  show ?thesis
  proof
    assume "uncrossed book"
    with u have lt: "price bb < price ba" by simp
    show "uncrossed_all book"
      unfolding uncrossed_all_def
    proof (intro ballI)
      fix bid ask
      assume "bid \<in> set (buyOrders book)" "ask \<in> set (sellOrders book)"
      with buy_top_best [OF bb] sell_top_best [OF ba]
      have "price bid \<le> price bb" "price ba \<le> price ask" by auto
      with lt show "price bid < price ask" by simp
    qed
  next
    assume "uncrossed_all book"
    with pq_top_mem [OF bb] pq_top_mem [OF ba] have "price bb < price ba"
      by (simp add: uncrossed_all_def)
    with u show "uncrossed book" by simp
  qed
qed

subsection \<open>One call of \<open>processBuyOrder\<close> and of \<open>processSellOrder\<close>\<close>

lemma processBuyOrder_summary:
  obtains r asks' new where
    "buyOrders (orderBook (processBuyOrder b0 eng0)) =
       (if 0 < r then buyOrders (orderBook eng0) @ [b0\<lparr>quantity := r\<rparr>]
        else buyOrders (orderBook eng0))"
    "sellOrders (orderBook (processBuyOrder b0 eng0)) = asks'"
    "tradeLogger (processBuyOrder b0 eng0) = tradeLogger eng0 @ new"
    "cout (processBuyOrder b0 eng0) = cout eng0 @ map TradeExecuted new"
    "\<forall>tr\<in>set new. buyOrderID tr = orderID b0 \<and> trade_price tr \<le> price b0 \<and>
        (\<exists>s0\<in>set (sellOrders (orderBook eng0)).
           sellOrderID tr = orderID s0 \<and> trade_price tr = price s0)"
    "r + traded_qty new = quantity b0"
    "0 \<le> quantity b0 \<longrightarrow> 0 \<le> r"
    "resting_qty asks' + traded_qty new = resting_qty (sellOrders (orderBook eng0))"
    "\<forall>s\<in>set asks'. \<exists>s0\<in>set (sellOrders (orderBook eng0)).
        \<exists>r. s = s0\<lparr>quantity := r\<rparr>
           \<and> (positive_qty (sellOrders (orderBook eng0)) \<longrightarrow> r \<le> quantity s0)"
    "positive_qty (sellOrders (orderBook eng0)) \<longrightarrow> positive_qty asks' \<and> r \<le> quantity b0"
    "0 < r \<longrightarrow> (\<forall>ask\<in>set asks'. price b0 < price ask)"
proof -
  obtain b eng1 where loop: "processBuyOrder_loop (b0, eng0) = (b, eng1)"
    by (cases "processBuyOrder_loop (b0, eng0)")
  have inv: "buy_inv b0 eng0 (b, eng1)"
    using buy_inv_loop [of b0 eng0] by (simp add: loop)
  have exit: "processBuyOrder_body (b, eng1) = None"
    using processBuyOrder_loop_exit [of "(b0, eng0)"] by (simp add: loop)
  from inv have
    i1: "\<exists>r. b = b0\<lparr>quantity := r\<rparr>" and
    i2: "0 \<le> quantity b0 \<longrightarrow> 0 \<le> quantity b" and
    i3: "buyOrders (orderBook eng1) = buyOrders (orderBook eng0)" and
    i4: "cout eng1 = cout eng0 @ map TradeExecuted (emitted eng0 eng1)" and
    i5: "\<forall>s\<in>set (sellOrders (orderBook eng1)). \<exists>s0\<in>set (sellOrders (orderBook eng0)).
            \<exists>r. s = s0\<lparr>quantity := r\<rparr>
               \<and> (positive_qty (sellOrders (orderBook eng0)) \<longrightarrow> r \<le> quantity s0)" and
    i6: "positive_qty (sellOrders (orderBook eng0))
            \<longrightarrow> positive_qty (sellOrders (orderBook eng1)) \<and> quantity b \<le> quantity b0" and
    i7: "tradeLogger eng1 = tradeLogger eng0 @ emitted eng0 eng1" and
    i8: "\<forall>tr\<in>set (emitted eng0 eng1).
            buyOrderID tr = orderID b0 \<and> trade_price tr \<le> price b0 \<and>
            (\<exists>s0\<in>set (sellOrders (orderBook eng0)).
               sellOrderID tr = orderID s0 \<and> trade_price tr = price s0)" and
    i9: "quantity b + traded_qty (emitted eng0 eng1) = quantity b0" and
    i10: "resting_qty (sellOrders (orderBook eng1)) + traded_qty (emitted eng0 eng1)
          = resting_qty (sellOrders (orderBook eng0))"
    by (simp_all add: buy_inv_def)
  from i1 have bq: "b = b0\<lparr>quantity := quantity b\<rparr>" and bp: "price b = price b0" by auto
  have res: "processBuyOrder b0 eng0 =
      (if quantity b > 0 then eng1\<lparr>orderBook := addBuyOrder b (orderBook eng1)\<rparr> else eng1)"
    by (simp add: processBuyOrder_def loop)
  have c1: "buyOrders (orderBook (processBuyOrder b0 eng0)) =
       (if 0 < quantity b then buyOrders (orderBook eng0) @ [b0\<lparr>quantity := quantity b\<rparr>]
        else buyOrders (orderBook eng0))"
    using bq by (simp add: res addBuyOrder_def pq_push_def i3)
  have c2: "sellOrders (orderBook (processBuyOrder b0 eng0)) = sellOrders (orderBook eng1)"
    by (simp add: res addBuyOrder_def)
  have c3: "tradeLogger (processBuyOrder b0 eng0) = tradeLogger eng0 @ emitted eng0 eng1"
    using i7 by (simp add: res)
  have c4: "cout (processBuyOrder b0 eng0) = cout eng0 @ map TradeExecuted (emitted eng0 eng1)"
    using i4 by (simp add: res)
  have c11: "0 < quantity b \<longrightarrow> (\<forall>ask\<in>set (sellOrders (orderBook eng1)). price b0 < price ask)"
  proof (intro impI ballI)
    fix ask assume p: "0 < quantity b" and a: "ask \<in> set (sellOrders (orderBook eng1))"
    from exit p a obtain t where
      t: "pq_top SellOrderComparator (sellOrders (orderBook eng1)) = Some t" and
      lt: "price b < price t"
      by (auto simp: processBuyOrder_body_None)
    from sell_top_best [OF t a] lt bp show "price b0 < price ask" by simp
  qed
  show thesis
    by (rule that [of "quantity b" "sellOrders (orderBook eng1)" "emitted eng0 eng1"])
       (fact c1 c2 c3 c4 i8 i9 i2 i10 i5 i6 c11)+
qed

lemma processSellOrder_summary:
  obtains r bids' new where
    "sellOrders (orderBook (processSellOrder b0 eng0)) =
       (if 0 < r then sellOrders (orderBook eng0) @ [b0\<lparr>quantity := r\<rparr>]
        else sellOrders (orderBook eng0))"
    "buyOrders (orderBook (processSellOrder b0 eng0)) = bids'"
    "tradeLogger (processSellOrder b0 eng0) = tradeLogger eng0 @ new"
    "cout (processSellOrder b0 eng0) = cout eng0 @ map TradeExecuted new"
    "\<forall>tr\<in>set new. sellOrderID tr = orderID b0 \<and> price b0 \<le> trade_price tr \<and>
        (\<exists>s0\<in>set (buyOrders (orderBook eng0)).
           buyOrderID tr = orderID s0 \<and> trade_price tr = price s0)"
    "r + traded_qty new = quantity b0"
    "0 \<le> quantity b0 \<longrightarrow> 0 \<le> r"
    "resting_qty bids' + traded_qty new = resting_qty (buyOrders (orderBook eng0))"
    "\<forall>s\<in>set bids'. \<exists>s0\<in>set (buyOrders (orderBook eng0)).
        \<exists>r. s = s0\<lparr>quantity := r\<rparr>
           \<and> (positive_qty (buyOrders (orderBook eng0)) \<longrightarrow> r \<le> quantity s0)"
    "positive_qty (buyOrders (orderBook eng0)) \<longrightarrow> positive_qty bids' \<and> r \<le> quantity b0"
    "0 < r \<longrightarrow> (\<forall>bid\<in>set bids'. price bid < price b0)"
proof -
  obtain b eng1 where loop: "processSellOrder_loop (b0, eng0) = (b, eng1)"
    by (cases "processSellOrder_loop (b0, eng0)")
  have inv: "sell_inv b0 eng0 (b, eng1)"
    using sell_inv_loop [of b0 eng0] by (simp add: loop)
  have exit: "processSellOrder_body (b, eng1) = None"
    using processSellOrder_loop_exit [of "(b0, eng0)"] by (simp add: loop)
  from inv have
    i1: "\<exists>r. b = b0\<lparr>quantity := r\<rparr>" and
    i2: "0 \<le> quantity b0 \<longrightarrow> 0 \<le> quantity b" and
    i3: "sellOrders (orderBook eng1) = sellOrders (orderBook eng0)" and
    i4: "cout eng1 = cout eng0 @ map TradeExecuted (emitted eng0 eng1)" and
    i5: "\<forall>s\<in>set (buyOrders (orderBook eng1)). \<exists>s0\<in>set (buyOrders (orderBook eng0)).
            \<exists>r. s = s0\<lparr>quantity := r\<rparr>
               \<and> (positive_qty (buyOrders (orderBook eng0)) \<longrightarrow> r \<le> quantity s0)" and
    i6: "positive_qty (buyOrders (orderBook eng0))
            \<longrightarrow> positive_qty (buyOrders (orderBook eng1)) \<and> quantity b \<le> quantity b0" and
    i7: "tradeLogger eng1 = tradeLogger eng0 @ emitted eng0 eng1" and
    i8: "\<forall>tr\<in>set (emitted eng0 eng1).
            sellOrderID tr = orderID b0 \<and> price b0 \<le> trade_price tr \<and>
            (\<exists>s0\<in>set (buyOrders (orderBook eng0)).
               buyOrderID tr = orderID s0 \<and> trade_price tr = price s0)" and
    i9: "quantity b + traded_qty (emitted eng0 eng1) = quantity b0" and
    i10: "resting_qty (buyOrders (orderBook eng1)) + traded_qty (emitted eng0 eng1)
          = resting_qty (buyOrders (orderBook eng0))"
    by (simp_all add: sell_inv_def)
  from i1 have bq: "b = b0\<lparr>quantity := quantity b\<rparr>" and bp: "price b = price b0" by auto
  have res: "processSellOrder b0 eng0 =
      (if quantity b > 0 then eng1\<lparr>orderBook := addSellOrder b (orderBook eng1)\<rparr> else eng1)"
    by (simp add: processSellOrder_def loop)
  have c1: "sellOrders (orderBook (processSellOrder b0 eng0)) =
       (if 0 < quantity b then sellOrders (orderBook eng0) @ [b0\<lparr>quantity := quantity b\<rparr>]
        else sellOrders (orderBook eng0))"
    using bq by (simp add: res addSellOrder_def pq_push_def i3)
  have c2: "buyOrders (orderBook (processSellOrder b0 eng0)) = buyOrders (orderBook eng1)"
    by (simp add: res addSellOrder_def)
  have c3: "tradeLogger (processSellOrder b0 eng0) = tradeLogger eng0 @ emitted eng0 eng1"
    using i7 by (simp add: res)
  have c4: "cout (processSellOrder b0 eng0) = cout eng0 @ map TradeExecuted (emitted eng0 eng1)"
    using i4 by (simp add: res)
  have c11: "0 < quantity b \<longrightarrow> (\<forall>bid\<in>set (buyOrders (orderBook eng1)). price bid < price b0)"
  proof (intro impI ballI)
    fix bid assume p: "0 < quantity b" and a: "bid \<in> set (buyOrders (orderBook eng1))"
    from exit p a obtain t where
      t: "pq_top BuyOrderComparator (buyOrders (orderBook eng1)) = Some t" and
      lt: "price t < price b"
      by (auto simp: processSellOrder_body_None)
    from buy_top_best [OF t a] lt bp show "price bid < price b0" by simp
  qed
  show thesis
    by (rule that [of "quantity b" "buyOrders (orderBook eng1)" "emitted eng0 eng1"])
       (fact c1 c2 c3 c4 i8 i9 i2 i10 i5 i6 c11)+
qed

subsection \<open>The book stays uncrossed\<close>

lemma processOrder_rejected:
  "quantity newOrder > 1000 \<Longrightarrow>
     processOrder newOrder eng = eng\<lparr>cout := cout eng @ [OrderRejected (quantity newOrder)]\<rparr>"
  by (simp add: processOrder_def)

lemma processOrder_buy:
  "\<not> quantity newOrder > 1000 \<Longrightarrow> type newOrder = ''buy'' \<Longrightarrow>
     processOrder newOrder eng =
       processBuyOrder newOrder (eng\<lparr>cout := cout eng @ [ProcessingNewOrder newOrder]\<rparr>)"
  by (simp add: processOrder_def)

lemma processOrder_sell:
  "\<not> quantity newOrder > 1000 \<Longrightarrow> type newOrder \<noteq> ''buy'' \<Longrightarrow>
     processOrder newOrder eng =
       processSellOrder newOrder (eng\<lparr>cout := cout eng @ [ProcessingNewOrder newOrder]\<rparr>)"
  by (simp add: processOrder_def)

lemma processBuyOrder_uncrossed_all:
  assumes "uncrossed_all (orderBook eng)"
  shows "uncrossed_all (orderBook (processBuyOrder b eng))"
proof -
  obtain r asks' new where
    bids: "buyOrders (orderBook (processBuyOrder b eng)) =
       (if 0 < r then buyOrders (orderBook eng) @ [b\<lparr>quantity := r\<rparr>]
        else buyOrders (orderBook eng))" and
    asks: "sellOrders (orderBook (processBuyOrder b eng)) = asks'" and
    prov: "\<forall>s\<in>set asks'. \<exists>s0\<in>set (sellOrders (orderBook eng)).
        \<exists>r. s = s0\<lparr>quantity := r\<rparr>
           \<and> (positive_qty (sellOrders (orderBook eng)) \<longrightarrow> r \<le> quantity s0)" and
    ex: "0 < r \<longrightarrow> (\<forall>ask\<in>set asks'. price b < price ask)"
    by (rule processBuyOrder_summary [of b eng]) blast
  show ?thesis
    unfolding uncrossed_all_def asks
  proof (intro ballI)
    fix bid ask
    assume bid: "bid \<in> set (buyOrders (orderBook (processBuyOrder b eng)))"
      and ask: "ask \<in> set asks'"
    from prov ask obtain s0 r0 where s0: "s0 \<in> set (sellOrders (orderBook eng))"
      and a: "ask = s0\<lparr>quantity := r0\<rparr>" by blast
    from a have pa: "price ask = price s0" by simp
    from bid have "bid \<in> set (buyOrders (orderBook eng)) \<or> (0 < r \<and> bid = b\<lparr>quantity := r\<rparr>)"
      by (auto simp: bids split: if_splits)
    then show "price bid < price ask"
    proof
      assume "bid \<in> set (buyOrders (orderBook eng))"
      with assms s0 pa show ?thesis by (simp add: uncrossed_all_def)
    next
      assume "0 < r \<and> bid = b\<lparr>quantity := r\<rparr>"
      with ex ask show ?thesis by simp
    qed
  qed
qed

lemma processSellOrder_uncrossed_all:
  assumes "uncrossed_all (orderBook eng)"
  shows "uncrossed_all (orderBook (processSellOrder b eng))"
proof -
  obtain r bids' new where
    asks: "sellOrders (orderBook (processSellOrder b eng)) =
       (if 0 < r then sellOrders (orderBook eng) @ [b\<lparr>quantity := r\<rparr>]
        else sellOrders (orderBook eng))" and
    bids: "buyOrders (orderBook (processSellOrder b eng)) = bids'" and
    prov: "\<forall>s\<in>set bids'. \<exists>s0\<in>set (buyOrders (orderBook eng)).
        \<exists>r. s = s0\<lparr>quantity := r\<rparr>
           \<and> (positive_qty (buyOrders (orderBook eng)) \<longrightarrow> r \<le> quantity s0)" and
    ex: "0 < r \<longrightarrow> (\<forall>bid\<in>set bids'. price bid < price b)"
    by (rule processSellOrder_summary [of b eng]) blast
  show ?thesis
    unfolding uncrossed_all_def bids
  proof (intro ballI)
    fix bid ask
    assume ask: "ask \<in> set (sellOrders (orderBook (processSellOrder b eng)))"
      and bid: "bid \<in> set bids'"
    from prov bid obtain s0 r0 where s0: "s0 \<in> set (buyOrders (orderBook eng))"
      and a: "bid = s0\<lparr>quantity := r0\<rparr>" by blast
    from a have pa: "price bid = price s0" by simp
    from ask have "ask \<in> set (sellOrders (orderBook eng)) \<or> (0 < r \<and> ask = b\<lparr>quantity := r\<rparr>)"
      by (auto simp: asks split: if_splits)
    then show "price bid < price ask"
    proof
      assume "ask \<in> set (sellOrders (orderBook eng))"
      with assms s0 pa show ?thesis by (simp add: uncrossed_all_def)
    next
      assume "0 < r \<and> ask = b\<lparr>quantity := r\<rparr>"
      with ex bid show ?thesis by simp
    qed
  qed
qed

lemma processOrder_uncrossed_all:
  "uncrossed_all (orderBook eng) \<Longrightarrow> uncrossed_all (orderBook (processOrder newOrder eng))"
  using processBuyOrder_uncrossed_all
          [of "eng\<lparr>cout := cout eng @ [ProcessingNewOrder newOrder]\<rparr>" newOrder]
        processSellOrder_uncrossed_all
          [of "eng\<lparr>cout := cout eng @ [ProcessingNewOrder newOrder]\<rparr>" newOrder]
  by (simp add: processOrder_def Let_def)

lemma processOrders_uncrossed_all:
  "uncrossed_all (orderBook eng) \<Longrightarrow> uncrossed_all (orderBook (processOrders submissions eng))"
  by (induction submissions arbitrary: eng) (simp_all add: processOrder_uncrossed_all)

subsection \<open>The trades of one call\<close>

lemma processBuyOrder_trades:
  "tradeLogger (processBuyOrder b eng) = tradeLogger eng @ emitted eng (processBuyOrder b eng) \<and>
   (\<forall>tr\<in>set (emitted eng (processBuyOrder b eng)).
      buyOrderID tr = orderID b \<and> trade_price tr \<le> price b \<and>
      (\<exists>s0\<in>set (sellOrders (orderBook eng)).
         sellOrderID tr = orderID s0 \<and> trade_price tr = price s0))"
proof -
  obtain new where
    log: "tradeLogger (processBuyOrder b eng) = tradeLogger eng @ new" and
    tr: "\<forall>tr\<in>set new. buyOrderID tr = orderID b \<and> trade_price tr \<le> price b \<and>
        (\<exists>s0\<in>set (sellOrders (orderBook eng)).
           sellOrderID tr = orderID s0 \<and> trade_price tr = price s0)"
    by (rule processBuyOrder_summary [of b eng]) blast
  from emitted_append [OF log] log tr show ?thesis by simp
qed

lemma processSellOrder_trades:
  "tradeLogger (processSellOrder b eng) = tradeLogger eng @ emitted eng (processSellOrder b eng) \<and>
   (\<forall>tr\<in>set (emitted eng (processSellOrder b eng)).
      sellOrderID tr = orderID b \<and> price b \<le> trade_price tr \<and>
      (\<exists>s0\<in>set (buyOrders (orderBook eng)).
         buyOrderID tr = orderID s0 \<and> trade_price tr = price s0))"
proof -
  obtain new where
    log: "tradeLogger (processSellOrder b eng) = tradeLogger eng @ new" and
    tr: "\<forall>tr\<in>set new. sellOrderID tr = orderID b \<and> price b \<le> trade_price tr \<and>
        (\<exists>s0\<in>set (buyOrders (orderBook eng)).
           buyOrderID tr = orderID s0 \<and> trade_price tr = price s0)"
    by (rule processSellOrder_summary [of b eng]) blast
  from emitted_append [OF log] log tr show ?thesis by simp
qed

subsection \<open>Every pass shrinks the opposite queue\<close>

lemma processBuyOrder_body_decreases:
  assumes "processBuyOrder_body (b, eng) = Some (b', eng')"
    and "positive_qty (sellOrders (orderBook eng))"
  shows "positive_qty (sellOrders (orderBook eng')) \<and>
         0 \<le> resting_qty (sellOrders (orderBook eng')) \<and>
         resting_qty (sellOrders (orderBook eng')) < resting_qty (sellOrders (orderBook eng))"
proof -
  from assms(1) obtain t q where
    mem: "t \<in> set (sellOrders (orderBook eng))" and
    pos: "0 < quantity b" and
    q: "q = min (quantity b) (quantity t)" and
    sells: "sellOrders (orderBook eng') =
       (if 0 < quantity t - q
        then remove1 t (sellOrders (orderBook eng)) @ [t\<lparr>quantity := quantity t - q\<rparr>]
        else remove1 t (sellOrders (orderBook eng)))"
    by (rule processBuyOrder_body_Some) blast
  have qt: "0 < quantity t" by (rule positive_qty_mem [OF assms(2) mem])
  with pos have qpos: "0 < q" "q \<le> quantity t" by (simp_all add: q)
  have p: "positive_qty (sellOrders (orderBook eng'))"
    using assms(2) by (auto simp: sells intro: positive_qty_remove1)
  have d: "resting_qty (sellOrders (orderBook eng')) < resting_qty (sellOrders (orderBook eng))"
    using qpos by (auto simp: sells resting_qty_remove1 [OF mem])
  from p d positive_qty_resting [OF p] show ?thesis by simp
qed

lemma processSellOrder_body_decreases:
  assumes "processSellOrder_body (b, eng) = Some (b', eng')"
    and "positive_qty (buyOrders (orderBook eng))"
  shows "positive_qty (buyOrders (orderBook eng')) \<and>
         0 \<le> resting_qty (buyOrders (orderBook eng')) \<and>
         resting_qty (buyOrders (orderBook eng')) < resting_qty (buyOrders (orderBook eng))"
proof -
  from assms(1) obtain t q where
    mem: "t \<in> set (buyOrders (orderBook eng))" and
    pos: "0 < quantity b" and
    q: "q = min (quantity b) (quantity t)" and
    buys: "buyOrders (orderBook eng') =
       (if 0 < quantity t - q
        then remove1 t (buyOrders (orderBook eng)) @ [t\<lparr>quantity := quantity t - q\<rparr>]
        else remove1 t (buyOrders (orderBook eng)))"
    by (rule processSellOrder_body_Some) blast
  have qt: "0 < quantity t" by (rule positive_qty_mem [OF assms(2) mem])
  with pos have qpos: "0 < q" "q \<le> quantity t" by (simp_all add: q)
  have p: "positive_qty (buyOrders (orderBook eng'))"
    using assms(2) by (auto simp: buys intro: positive_qty_remove1)
  have d: "resting_qty (buyOrders (orderBook eng')) < resting_qty (buyOrders (orderBook eng))"
    using qpos by (auto simp: buys resting_qty_remove1 [OF mem])
  from p d positive_qty_resting [OF p] show ?thesis by simp
qed

lemma processBuyOrder_body_measure:
  assumes "processBuyOrder_body (b, eng) = Some (b', eng')"
  shows "2 * length (sellOrders (orderBook eng')) + (if 0 < quantity b' then 1 else 0)
         < 2 * length (sellOrders (orderBook eng)) + (if 0 < quantity b then 1 else (0::nat))"
proof -
  from assms obtain t q where
    mem: "t \<in> set (sellOrders (orderBook eng))" and
    pos: "0 < quantity b" and
    q: "q = min (quantity b) (quantity t)" and
    b': "b' = b\<lparr>quantity := quantity b - q\<rparr>" and
    sells: "sellOrders (orderBook eng') =
       (if 0 < quantity t - q
        then remove1 t (sellOrders (orderBook eng)) @ [t\<lparr>quantity := quantity t - q\<rparr>]
        else remove1 t (sellOrders (orderBook eng)))"
    by (rule processBuyOrder_body_Some) blast
  from mem have len: "Suc (length (remove1 t (sellOrders (orderBook eng))))
                  = length (sellOrders (orderBook eng))"
    by (simp add: length_remove1) (cases "sellOrders (orderBook eng)"; simp)
  from pos len show ?thesis
    by (auto simp: sells b' q min_def)
qed

lemma processSellOrder_body_measure:
  assumes "processSellOrder_body (b, eng) = Some (b', eng')"
  shows "2 * length (buyOrders (orderBook eng')) + (if 0 < quantity b' then 1 else 0)
         < 2 * length (buyOrders (orderBook eng)) + (if 0 < quantity b then 1 else (0::nat))"
proof -
  from assms obtain t q where
    mem: "t \<in> set (buyOrders (orderBook eng))" and
    pos: "0 < quantity b" and
    q: "q = min (quantity b) (quantity t)" and
    b': "b' = b\<lparr>quantity := quantity b - q\<rparr>" and
    buys: "buyOrders (orderBook eng') =
       (if 0 < quantity t - q
        then remove1 t (buyOrders (orderBook eng)) @ [t\<lparr>quantity := quantity t - q\<rparr>]
        else remove1 t (buyOrders (orderBook eng)))"
    by (rule processSellOrder_body_Some) blast
  from mem have len: "Suc (length (remove1 t (buyOrders (orderBook eng))))
                  = length (buyOrders (orderBook eng))"
    by (simp add: length_remove1) (cases "buyOrders (orderBook eng)"; simp)
  from pos len show ?thesis
    by (auto simp: buys b' q min_def)
qed

lemma processBuyOrder_loop_within:
  fixes m :: "Order \<times> MatchingEngine \<Rightarrow> nat"
  assumes step: "\<And>s s'. I s \<Longrightarrow> processBuyOrder_body s = Some s' \<Longrightarrow> I s' \<and> m s' < m s"
  shows "I s \<Longrightarrow> m s \<le> n \<Longrightarrow>
         loop_within n processBuyOrder_body s = Some (processBuyOrder_loop s)"
proof (induction n arbitrary: s)
  case 0
  then show ?case
    using step [of s] by (cases "processBuyOrder_body s") (auto simp: processBuyOrder_loop.simps [of s])
next
  case (Suc n)
  show ?case
  proof (cases "processBuyOrder_body s")
    case None
    then show ?thesis by (simp add: processBuyOrder_loop.simps [of s])
  next
    case (Some s')
    from step [OF Suc.prems(1) Some] Suc.prems(2) have "I s'" "m s' \<le> n" by auto
    from Suc.IH [OF this] Some show ?thesis by (simp add: processBuyOrder_loop.simps [of s])
  qed
qed

lemma processSellOrder_loop_within:
  fixes m :: "Order \<times> MatchingEngine \<Rightarrow> nat"
  assumes step: "\<And>s s'. I s \<Longrightarrow> processSellOrder_body s = Some s' \<Longrightarrow> I s' \<and> m s' < m s"
  shows "I s \<Longrightarrow> m s \<le> n \<Longrightarrow>
         loop_within n processSellOrder_body s = Some (processSellOrder_loop s)"
proof (induction n arbitrary: s)
  case 0
  then show ?case
    using step [of s] by (cases "processSellOrder_body s") (auto simp: processSellOrder_loop.simps [of s])
next
  case (Suc n)
  show ?case
  proof (cases "processSellOrder_body s")
    case None
    then show ?thesis by (simp add: processSellOrder_loop.simps [of s])
  next
    case (Some s')
    from step [OF Suc.prems(1) Some] Suc.prems(2) have "I s'" "m s' \<le> n" by auto
    from Suc.IH [OF this] Some show ?thesis by (simp add: processSellOrder_loop.simps [of s])
  qed
qed

lemma buy_loop_ends:
  "loop_within (2 * length (sellOrders (orderBook eng)) + 1) processBuyOrder_body (b, eng)
     = Some (processBuyOrder_loop (b, eng))"
  by (rule processBuyOrder_loop_within
        [where I = "\<lambda>s. True"
           and m = "\<lambda>(b, eng). 2 * length (sellOrders (orderBook eng))
                                 + (if 0 < quantity b then 1 else 0)"])
     (auto dest: processBuyOrder_body_measure)

lemma sell_loop_ends:
  "loop_within (2 * length (buyOrders (orderBook eng)) + 1) processSellOrder_body (b, eng)
     = Some (processSellOrder_loop (b, eng))"
  by (rule processSellOrder_loop_within
        [where I = "\<lambda>s. True"
           and m = "\<lambda>(b, eng). 2 * length (buyOrders (orderBook eng))
                                 + (if 0 < quantity b then 1 else 0)"])
     (auto dest: processSellOrder_body_measure)

lemma buy_loop_ends_resting:
  assumes "positive_qty (sellOrders (orderBook eng))"
  shows "loop_within (nat (resting_qty (sellOrders (orderBook eng)))) processBuyOrder_body (b, eng)
     = Some (processBuyOrder_loop (b, eng))"
proof (rule processBuyOrder_loop_within
        [where I = "\<lambda>(b, eng). positive_qty (sellOrders (orderBook eng))"
           and m = "\<lambda>(b, eng). nat (resting_qty (sellOrders (orderBook eng)))"])
  fix s s' :: "Order \<times> MatchingEngine"
  assume "case s of (b, eng) \<Rightarrow> positive_qty (sellOrders (orderBook eng))"
    and "processBuyOrder_body s = Some s'"
  then show "(case s' of (b, eng) \<Rightarrow> positive_qty (sellOrders (orderBook eng))) \<and>
       (case s' of (b, eng) \<Rightarrow> nat (resting_qty (sellOrders (orderBook eng))))
       < (case s of (b, eng) \<Rightarrow> nat (resting_qty (sellOrders (orderBook eng))))"
    using processBuyOrder_body_decreases [of "fst s" "snd s" "fst s'" "snd s'"]
    by (cases s; cases s') auto
qed (use assms in simp_all)

lemma sell_loop_ends_resting:
  assumes "positive_qty (buyOrders (orderBook eng))"
  shows "loop_within (nat (resting_qty (buyOrders (orderBook eng)))) processSellOrder_body (b, eng)
     = Some (processSellOrder_loop (b, eng))"
proof (rule processSellOrder_loop_within
        [where I = "\<lambda>(b, eng). positive_qty (buyOrders (orderBook eng))"
           and m = "\<lambda>(b, eng). nat (resting_qty (buyOrders (orderBook eng)))"])
  fix s s' :: "Order \<times> MatchingEngine"
  assume "case s of (b, eng) \<Rightarrow> positive_qty (buyOrders (orderBook eng))"
    and "processSellOrder_body s = Some s'"
  then show "(case s' of (b, eng) \<Rightarrow> positive_qty (buyOrders (orderBook eng))) \<and>
       (case s' of (b, eng) \<Rightarrow> nat (resting_qty (buyOrders (orderBook eng))))
       < (case s of (b, eng) \<Rightarrow> nat (resting_qty (buyOrders (orderBook eng))))"
    using processSellOrder_body_decreases [of "fst s" "snd s" "fst s'" "snd s'"]
    by (cases s; cases s') auto
qed (use assms in simp_all)

subsection \<open>Quantities are conserved by one call\<close>

lemma admitted_qty_Cons:
  "admitted_buy_qty (order # rest) = admitted_buy_qty [order] + admitted_buy_qty rest"
  "admitted_sell_qty (order # rest) = admitted_sell_qty [order] + admitted_sell_qty rest"
  by (simp_all add: admitted_buy_qty_def admitted_sell_qty_def)

lemma processBuyOrder_conserves:
  assumes "0 \<le> quantity b"
  shows "traded_qty (tradeLogger (processBuyOrder b eng))
           + resting_qty (buyOrders (orderBook (processBuyOrder b eng)))
         = traded_qty (tradeLogger eng) + resting_qty (buyOrders (orderBook eng)) + quantity b \<and>
         traded_qty (tradeLogger (processBuyOrder b eng))
           + resting_qty (sellOrders (orderBook (processBuyOrder b eng)))
         = traded_qty (tradeLogger eng) + resting_qty (sellOrders (orderBook eng))"
proof -
  obtain r asks' new where
    bids: "buyOrders (orderBook (processBuyOrder b eng)) =
       (if 0 < r then buyOrders (orderBook eng) @ [b\<lparr>quantity := r\<rparr>]
        else buyOrders (orderBook eng))" and
    asks: "sellOrders (orderBook (processBuyOrder b eng)) = asks'" and
    log: "tradeLogger (processBuyOrder b eng) = tradeLogger eng @ new" and
    own: "r + traded_qty new = quantity b" and
    nonneg: "0 \<le> quantity b \<longrightarrow> 0 \<le> r" and
    opp: "resting_qty asks' + traded_qty new = resting_qty (sellOrders (orderBook eng))"
    by (rule processBuyOrder_summary [of b eng]) blast
  from assms nonneg have "0 \<le> r" by simp
  with own opp show ?thesis
    by (auto simp: bids asks log traded_qty_append)
qed

lemma processSellOrder_conserves:
  assumes "0 \<le> quantity b"
  shows "traded_qty (tradeLogger (processSellOrder b eng))
           + resting_qty (sellOrders (orderBook (processSellOrder b eng)))
         = traded_qty (tradeLogger eng) + resting_qty (sellOrders (orderBook eng)) + quantity b \<and>
         traded_qty (tradeLogger (processSellOrder b eng))
           + resting_qty (buyOrders (orderBook (processSellOrder b eng)))
         = traded_qty (tradeLogger eng) + resting_qty (buyOrders (orderBook eng))"
proof -
  obtain r bids' new where
    asks: "sellOrders (orderBook (processSellOrder b eng)) =
       (if 0 < r then sellOrders (orderBook eng) @ [b\<lparr>quantity := r\<rparr>]
        else sellOrders (orderBook eng))" and
    bids: "buyOrders (orderBook (processSellOrder b eng)) = bids'" and
    log: "tradeLogger (processSellOrder b eng) = tradeLogger eng @ new" and
    own: "r + traded_qty new = quantity b" and
    nonneg: "0 \<le> quantity b \<longrightarrow> 0 \<le> r" and
    opp: "resting_qty bids' + traded_qty new = resting_qty (buyOrders (orderBook eng))"
    by (rule processSellOrder_summary [of b eng]) blast
  from assms nonneg have "0 \<le> r" by simp
  with own opp show ?thesis
    by (auto simp: bids asks log traded_qty_append)
qed

lemma processOrder_dropped:
  "quantity newOrder \<le> 0 \<Longrightarrow>
     processOrder newOrder eng = eng\<lparr>cout := cout eng @ [ProcessingNewOrder newOrder]\<rparr>"
  by (simp add: processOrder_def processBuyOrder_def processSellOrder_def Let_def
        processBuyOrder_loop.simps
          [of "(newOrder, eng\<lparr>cout := cout eng @ [ProcessingNewOrder newOrder]\<rparr>)"]
        processSellOrder_loop.simps
          [of "(newOrder, eng\<lparr>cout := cout eng @ [ProcessingNewOrder newOrder]\<rparr>)"]
        processBuyOrder_body_def processSellOrder_body_def)

lemma processOrder_conserves:
  "traded_qty (tradeLogger (processOrder newOrder eng))
           + resting_qty (buyOrders (orderBook (processOrder newOrder eng)))
         = traded_qty (tradeLogger eng) + resting_qty (buyOrders (orderBook eng))
           + admitted_buy_qty [newOrder] \<and>
   traded_qty (tradeLogger (processOrder newOrder eng))
           + resting_qty (sellOrders (orderBook (processOrder newOrder eng)))
         = traded_qty (tradeLogger eng) + resting_qty (sellOrders (orderBook eng))
           + admitted_sell_qty [newOrder]"
proof -
  consider (rejected) "quantity newOrder > 1000"
    | (dropped) "quantity newOrder \<le> 0"
    | (taken) "0 < quantity newOrder" "\<not> quantity newOrder > 1000"
    by linarith
  then show ?thesis
  proof cases
    case rejected
    then show ?thesis
      by (simp add: processOrder_rejected admitted_buy_qty_def admitted_sell_qty_def admitted_def)
  next
    case dropped
    then show ?thesis
      by (simp add: processOrder_dropped admitted_buy_qty_def admitted_sell_qty_def admitted_def)
  next
    case taken
    then have nonneg: "0 \<le> quantity newOrder" by simp
    let ?eng1 = "eng\<lparr>cout := cout eng @ [ProcessingNewOrder newOrder]\<rparr>"
    show ?thesis
    proof (cases "type newOrder = ''buy''")
      case True
      with taken processBuyOrder_conserves [OF nonneg, of ?eng1] show ?thesis
        by (simp add: processOrder_buy admitted_buy_qty_def admitted_sell_qty_def admitted_def)
    next
      case False
      with taken processSellOrder_conserves [OF nonneg, of ?eng1] show ?thesis
        by (simp add: processOrder_sell admitted_buy_qty_def admitted_sell_qty_def admitted_def)
    qed
  qed
qed

lemma processOrders_conserves:
  "traded_qty (tradeLogger (processOrders submissions eng))
           + resting_qty (buyOrders (orderBook (processOrders submissions eng)))
         = traded_qty (tradeLogger eng) + resting_qty (buyOrders (orderBook eng))
           + admitted_buy_qty submissions \<and>
   traded_qty (tradeLogger (processOrders submissions eng))
           + resting_qty (sellOrders (orderBook (processOrders submissions eng)))
         = traded_qty (tradeLogger eng) + resting_qty (sellOrders (orderBook eng))
           + admitted_sell_qty submissions"
proof (induction submissions arbitrary: eng)
  case Nil
  then show ?case by (simp add: admitted_buy_qty_def admitted_sell_qty_def)
next
  case (Cons order rest)
  from Cons.IH [of "processOrder order eng"] processOrder_conserves [of order eng]
  show ?case
    by (simp add: admitted_qty_Cons [of order rest])
qed

subsection \<open>Resting quantities stay between 1 and 1000\<close>

lemma book_wf_positive:
  "book_wf book \<Longrightarrow> positive_qty (buyOrders book) \<and> positive_qty (sellOrders book)"
  by (auto simp: book_wf_def positive_qty_def list_all_iff)

lemma book_wf_iff:
  "book_wf book \<longleftrightarrow>
     (\<forall>order\<in>set (buyOrders book) \<union> set (sellOrders book).
        0 < quantity order \<and> quantity order \<le> 1000)"
  by (auto simp: book_wf_def list_all_iff)

lemma processBuyOrder_book_wf:
  assumes wf: "book_wf (orderBook eng)" and le: "quantity b \<le> 1000"
  shows "book_wf (orderBook (processBuyOrder b eng))"
proof -
  from book_wf_positive [OF wf] have pos: "positive_qty (sellOrders (orderBook eng))" by simp
  obtain r asks' new where
    bids: "buyOrders (orderBook (processBuyOrder b eng)) =
       (if 0 < r then buyOrders (orderBook eng) @ [b\<lparr>quantity := r\<rparr>]
        else buyOrders (orderBook eng))" and
    asks: "sellOrders (orderBook (processBuyOrder b eng)) = asks'" and
    prov: "\<forall>s\<in>set asks'. \<exists>s0\<in>set (sellOrders (orderBook eng)).
        \<exists>r. s = s0\<lparr>quantity := r\<rparr>
           \<and> (positive_qty (sellOrders (orderBook eng)) \<longrightarrow> r \<le> quantity s0)" and
    keep: "positive_qty (sellOrders (orderBook eng)) \<longrightarrow> positive_qty asks' \<and> r \<le> quantity b"
    by (rule processBuyOrder_summary [of b eng]) blast
  from keep pos have pa: "positive_qty asks'" and rb: "r \<le> quantity b" by simp_all
  show ?thesis
    unfolding book_wf_iff
  proof
    fix x assume "x \<in> set (buyOrders (orderBook (processBuyOrder b eng)))
                    \<union> set (sellOrders (orderBook (processBuyOrder b eng)))"
    then consider "x \<in> set (buyOrders (orderBook eng))" | "0 < r" "x = b\<lparr>quantity := r\<rparr>"
      | "x \<in> set asks'"
      by (auto simp: bids asks split: if_splits)
    then show "0 < quantity x \<and> quantity x \<le> 1000"
    proof cases
      case 1
      with wf show ?thesis by (simp add: book_wf_iff)
    next
      case 2
      with rb le show ?thesis by simp
    next
      case 3
      with prov pos obtain s0 r0 where "s0 \<in> set (sellOrders (orderBook eng))"
        "x = s0\<lparr>quantity := r0\<rparr>" "r0 \<le> quantity s0" by blast
      moreover from this wf have "quantity s0 \<le> 1000" by (simp add: book_wf_iff)
      moreover from 3 pa have "0 < quantity x" by (rule positive_qty_mem [rotated])
      ultimately show ?thesis by simp
    qed
  qed
qed

lemma processSellOrder_book_wf:
  assumes wf: "book_wf (orderBook eng)" and le: "quantity b \<le> 1000"
  shows "book_wf (orderBook (processSellOrder b eng))"
proof -
  from book_wf_positive [OF wf] have pos: "positive_qty (buyOrders (orderBook eng))" by simp
  obtain r bids' new where
    asks: "sellOrders (orderBook (processSellOrder b eng)) =
       (if 0 < r then sellOrders (orderBook eng) @ [b\<lparr>quantity := r\<rparr>]
        else sellOrders (orderBook eng))" and
    bids: "buyOrders (orderBook (processSellOrder b eng)) = bids'" and
    prov: "\<forall>s\<in>set bids'. \<exists>s0\<in>set (buyOrders (orderBook eng)).
        \<exists>r. s = s0\<lparr>quantity := r\<rparr>
           \<and> (positive_qty (buyOrders (orderBook eng)) \<longrightarrow> r \<le> quantity s0)" and
    keep: "positive_qty (buyOrders (orderBook eng)) \<longrightarrow> positive_qty bids' \<and> r \<le> quantity b"
    by (rule processSellOrder_summary [of b eng]) blast
  from keep pos have pa: "positive_qty bids'" and rb: "r \<le> quantity b" by simp_all
  show ?thesis
    unfolding book_wf_iff
  proof
    fix x assume "x \<in> set (buyOrders (orderBook (processSellOrder b eng)))
                    \<union> set (sellOrders (orderBook (processSellOrder b eng)))"
    then consider "x \<in> set (sellOrders (orderBook eng))" | "0 < r" "x = b\<lparr>quantity := r\<rparr>"
      | "x \<in> set bids'"
      by (auto simp: bids asks split: if_splits)
    then show "0 < quantity x \<and> quantity x \<le> 1000"
    proof cases
      case 1
      with wf show ?thesis by (simp add: book_wf_iff)
    next
      case 2
      with rb le show ?thesis by simp
    next
      case 3
      with prov pos obtain s0 r0 where "s0 \<in> set (buyOrders (orderBook eng))"
        "x = s0\<lparr>quantity := r0\<rparr>" "r0 \<le> quantity s0" by blast
      moreover from this wf have "quantity s0 \<le> 1000" by (simp add: book_wf_iff)
      moreover from 3 pa have "0 < quantity x" by (rule positive_qty_mem [rotated])
      ultimately show ?thesis by simp
    qed
  qed
qed

lemma processOrder_book_wf:
  "book_wf (orderBook eng) \<Longrightarrow> book_wf (orderBook (processOrder newOrder eng))"
  using processBuyOrder_book_wf
          [of "eng\<lparr>cout := cout eng @ [ProcessingNewOrder newOrder]\<rparr>" newOrder]
        processSellOrder_book_wf
          [of "eng\<lparr>cout := cout eng @ [ProcessingNewOrder newOrder]\<rparr>" newOrder]
  by (simp add: processOrder_def Let_def)

lemma processOrders_book_wf:
  "book_wf (orderBook eng) \<Longrightarrow> book_wf (orderBook (processOrders submissions eng))"
  by (induction submissions arbitrary: eng) (simp_all add: processOrder_book_wf)

lemma reachable_book_wf: "book_wf (orderBook (processOrders submissions new_engine))"
  by (rule processOrders_book_wf) (simp add: book_wf_def new_engine_def)

section \<open>The claims\<close>

subsection \<open>C1: the book is uncrossed between calls\<close>

text \<open>
  Claim C1. For every sequence of valid submissions, after each \<open>processOrder\<close> call
  returns, either the bid side is empty, or the ask side is empty, or the price of the
  best bid is strictly less than the price of the best ask.
  The theorem holds for every sequence of submissions to a new engine, valid or not, and
  so after each call of the sequence, since every prefix of a sequence is a sequence.
\<close>

theorem uncrossed_at_quiescence:
  "uncrossed (orderBook (processOrders submissions new_engine))"
proof -
  have "uncrossed_all (orderBook new_engine)"
    by (simp add: uncrossed_all_def new_engine_def)
  then show ?thesis
    by (simp add: uncrossed_iff processOrders_uncrossed_all)
qed

text \<open>After the buy has walked the book, a bid at 100.50 and an ask at 101 rest.\<close>

theorem uncrossed_at_quiescence_witness:
  "hasBuyOrders (orderBook (processOrders walk_the_book new_engine)) \<and>
   hasSellOrders (orderBook (processOrders walk_the_book new_engine)) \<and>
   uncrossed (orderBook (processOrders walk_the_book new_engine))"
proof -
  have bids: "hasBuyOrders (orderBook (processOrders walk_the_book new_engine))"
    by code_simp
  have asks: "hasSellOrders (orderBook (processOrders walk_the_book new_engine))"
    by code_simp
  show ?thesis
    by (rule conjI [OF bids conjI [OF asks uncrossed_at_quiescence [of walk_the_book]]])
qed

subsection \<open>C2: trades execute at the resting order's price\<close>

text \<open>
  Claim C2. Every trade emitted by the matching loop executes at the resting order's
  price: a trade logged by \<open>processBuyOrder\<close> carries the identifier of the incoming buy
  order and the identifier and the price of a sell order that rested in the book when the
  call began; a trade logged by \<open>processSellOrder\<close> carries the identifier of the incoming
  sell order and the identifier and the price of a buy order that rested in the book.
  The trades of a call are the entries it appends to the log, which it never rewrites.
\<close>

theorem trades_at_resting_price:
  "(\<forall>tr\<in>set (emitted eng (processBuyOrder buyOrder eng)).
      \<exists>resting\<in>set (sellOrders (orderBook eng)).
        buyOrderID tr = orderID buyOrder \<and> sellOrderID tr = orderID resting \<and>
        trade_price tr = price resting) \<and>
   (\<forall>tr\<in>set (emitted eng (processSellOrder sellOrder eng)).
      \<exists>resting\<in>set (buyOrders (orderBook eng)).
        sellOrderID tr = orderID sellOrder \<and> buyOrderID tr = orderID resting \<and>
        trade_price tr = price resting) \<and>
   tradeLogger (processBuyOrder buyOrder eng)
     = tradeLogger eng @ emitted eng (processBuyOrder buyOrder eng) \<and>
   tradeLogger (processSellOrder sellOrder eng)
     = tradeLogger eng @ emitted eng (processSellOrder sellOrder eng)"
  using processBuyOrder_trades [of buyOrder eng] processSellOrder_trades [of sellOrder eng]
  by blast

text \<open>A buy at 102 against the ask at 101 trades at 101; a sell at 99 against the bid at
  100 trades at 100.\<close>

theorem trades_at_resting_price_witness:
  "emitted two_sided (processBuyOrder (mkOrder 3 ''buy'' 102 20 3) two_sided)
     = [\<lparr>buyOrderID = 3, sellOrderID = 2, trade_price = 101, trade_quantity = 20\<rparr>] \<and>
   (\<exists>resting\<in>set (sellOrders (orderBook two_sided)).
      buyOrderID \<lparr>buyOrderID = 3, sellOrderID = 2, trade_price = 101, trade_quantity = 20\<rparr>
        = orderID (mkOrder 3 ''buy'' 102 20 3) \<and>
      sellOrderID \<lparr>buyOrderID = 3, sellOrderID = 2, trade_price = 101, trade_quantity = 20\<rparr>
        = orderID resting \<and>
      trade_price \<lparr>buyOrderID = 3, sellOrderID = 2, trade_price = 101, trade_quantity = 20\<rparr>
        = price resting) \<and>
   emitted two_sided (processSellOrder (mkOrder 4 ''sell'' 99 20 4) two_sided)
     = [\<lparr>buyOrderID = 1, sellOrderID = 4, trade_price = 100, trade_quantity = 20\<rparr>] \<and>
   (\<exists>resting\<in>set (buyOrders (orderBook two_sided)).
      sellOrderID \<lparr>buyOrderID = 1, sellOrderID = 4, trade_price = 100, trade_quantity = 20\<rparr>
        = orderID (mkOrder 4 ''sell'' 99 20 4) \<and>
      buyOrderID \<lparr>buyOrderID = 1, sellOrderID = 4, trade_price = 100, trade_quantity = 20\<rparr>
        = orderID resting \<and>
      trade_price \<lparr>buyOrderID = 1, sellOrderID = 4, trade_price = 100, trade_quantity = 20\<rparr>
        = price resting)"
proof -
  let ?b = "mkOrder 3 ''buy'' 102 20 3" and ?s = "mkOrder 4 ''sell'' 99 20 4"
  let ?tb = "\<lparr>buyOrderID = 3, sellOrderID = 2, trade_price = 101, trade_quantity = 20\<rparr>"
  let ?ts = "\<lparr>buyOrderID = 1, sellOrderID = 4, trade_price = 100, trade_quantity = 20\<rparr>"
  have eb: "emitted two_sided (processBuyOrder ?b two_sided) = [?tb]" by code_simp
  have es: "emitted two_sided (processSellOrder ?s two_sided) = [?ts]" by code_simp
  have mb: "?tb \<in> set (emitted two_sided (processBuyOrder ?b two_sided))" by (simp add: eb)
  have ms: "?ts \<in> set (emitted two_sided (processSellOrder ?s two_sided))" by (simp add: es)
  note t = trades_at_resting_price [of two_sided ?b ?s]
  show ?thesis
    by (rule conjI [OF eb conjI [OF bspec [OF conjunct1 [OF t] mb]
          conjI [OF es bspec [OF conjunct1 [OF conjunct2 [OF t]] ms]]]])
qed

subsection \<open>C3: the risk check\<close>

text \<open>
  Claim C3 says that an order of more than 1000 units leaves the book unchanged, emits no
  trade, and that a REJECTED outcome is returned to the caller. The last part fails:
  \<open>processOrder\<close> is declared \<open>void\<close>. The call with 1500 units, which is rejected, and the
  call with 50 units, which rests its order, hand the same value back to their caller.
\<close>

theorem processOrder_returns_nothing:
  "fst (processOrder_call (mkOrder 1 ''buy'' 100 1500 1) new_engine)
     = fst (processOrder_call (mkOrder 1 ''buy'' 100 50 1) new_engine) \<and>
   buyOrders (orderBook (snd (processOrder_call (mkOrder 1 ''buy'' 100 1500 1) new_engine))) = [] \<and>
   buyOrders (orderBook (snd (processOrder_call (mkOrder 1 ''buy'' 100 50 1) new_engine)))
     = [mkOrder 1 ''buy'' 100 50 1]"
  by code_simp

text \<open>
  Claim C3, amended. If the quantity of an incoming order exceeds 1000, \<open>processOrder\<close>
  rejects it: the order book is left unchanged, no trade is emitted, and the line
  "Order rejected: Quantity ... exceeds maximum allowed (1000)" is written to standard
  output; the call returns no value to the caller.
\<close>

theorem risk_rejection:
  "quantity newOrder > 1000 \<Longrightarrow>
     orderBook (processOrder newOrder eng) = orderBook eng \<and>
     tradeLogger (processOrder newOrder eng) = tradeLogger eng \<and>
     cout (processOrder newOrder eng) = cout eng @ [OrderRejected (quantity newOrder)] \<and>
     processOrder_call newOrder eng = ((), processOrder newOrder eng)"
  by (simp add: processOrder_def processOrder_call_def)

text \<open>The order of 1500 units at 100.\<close>

theorem risk_rejection_witness:
  "quantity (mkOrder 1 ''buy'' 100 1500 1) > 1000 \<and>
   orderBook (processOrder (mkOrder 1 ''buy'' 100 1500 1) new_engine) = orderBook new_engine \<and>
   tradeLogger (processOrder (mkOrder 1 ''buy'' 100 1500 1) new_engine) = tradeLogger new_engine \<and>
   cout (processOrder (mkOrder 1 ''buy'' 100 1500 1) new_engine)
     = cout new_engine @ [OrderRejected (quantity (mkOrder 1 ''buy'' 100 1500 1))] \<and>
   processOrder_call (mkOrder 1 ''buy'' 100 1500 1) new_engine
     = ((), processOrder (mkOrder 1 ''buy'' 100 1500 1) new_engine)"
proof -
  have big: "quantity (mkOrder 1 ''buy'' 100 1500 1) > 1000" by (simp add: mkOrder_def)
  show ?thesis
    by (rule conjI [OF big risk_rejection [OF big, of new_engine]])
qed

subsection \<open>C4: validation\<close>

text \<open>
  Claim C4 says that the engine rejects at admission an order whose side is not buy or
  sell, whose price is not positive or whose quantity is not positive, so that it never
  enters the book and no trade is emitted. \<open>processOrder\<close> has no such check: an order of
  type "hold" at the price -5 takes the \<open>else\<close> branch of the dispatch and rests on the
  sell side, and after a bid at 100 it trades against that bid.
\<close>

theorem engine_does_not_validate:
  "sellOrders (orderBook (processOrder (mkOrder 1 ''hold'' (- 5) 10 1) new_engine))
     = [mkOrder 1 ''hold'' (- 5) 10 1] \<and>
   tradeLogger (processOrders [mkOrder 1 ''buy'' 100 10 1, mkOrder 2 ''hold'' (- 5) 10 2] new_engine)
     = [\<lparr>buyOrderID = 1, sellOrderID = 2, trade_price = 100, trade_quantity = 10\<rparr>]"
  by code_simp

text \<open>
  Claim C4, amended. Orders that fail validation (type neither "buy" nor "sell", price
  \<open>\<le> 0\<close>, or quantity \<open>\<le> 0\<close>) are rejected by menu entry 1 of \<open>main\<close>, before an \<open>Order\<close> is
  built and before \<open>processOrder\<close> is called: the order never enters the book, no trade is
  emitted, the order counter does not advance, and the user is informed by the line
  "Invalid order type!", "Invalid price!" or "Invalid quantity!" for the first check that
  fails.
\<close>

theorem validation_in_main:
  "(ty \<noteq> ''buy'' \<and> ty \<noteq> ''sell'') \<or> p \<le> 0 \<or> q \<le> 0 \<Longrightarrow>
     orderBook (engine (main_place_order ty p q now sess)) = orderBook (engine sess) \<and>
     tradeLogger (engine (main_place_order ty p q now sess)) = tradeLogger (engine sess) \<and>
     orderCounter (main_place_order ty p q now sess) = orderCounter sess \<and>
     cout (engine (main_place_order ty p q now sess)) =
       cout (engine sess) @
         [if ty \<noteq> ''buy'' \<and> ty \<noteq> ''sell'' then InvalidOrderType
          else if p \<le> 0 then InvalidPrice else InvalidQuantity]"
  by (auto simp: main_place_order_def say_def)

text \<open>The type "hold", typed at the menu of a session whose book has two orders.\<close>

theorem validation_in_main_witness:
  "((''hold'' \<noteq> ''buy'' \<and> ''hold'' \<noteq> ''sell'') \<or> (100::real) \<le> 0 \<or> (10::int) \<le> 0) \<and>
   orderBook (engine (main_place_order ''hold'' 100 10 7 \<lparr>engine = two_sided, orderCounter = 3\<rparr>))
     = orderBook (engine \<lparr>engine = two_sided, orderCounter = 3\<rparr>) \<and>
   tradeLogger (engine (main_place_order ''hold'' 100 10 7 \<lparr>engine = two_sided, orderCounter = 3\<rparr>))
     = tradeLogger (engine \<lparr>engine = two_sided, orderCounter = 3\<rparr>) \<and>
   orderCounter (main_place_order ''hold'' 100 10 7 \<lparr>engine = two_sided, orderCounter = 3\<rparr>)
     = orderCounter \<lparr>engine = two_sided, orderCounter = 3\<rparr> \<and>
   cout (engine (main_place_order ''hold'' 100 10 7 \<lparr>engine = two_sided, orderCounter = 3\<rparr>)) =
     cout (engine \<lparr>engine = two_sided, orderCounter = 3\<rparr>) @
       [if ''hold'' \<noteq> ''buy'' \<and> ''hold'' \<noteq> ''sell'' then InvalidOrderType
        else if (100::real) \<le> 0 then InvalidPrice else InvalidQuantity]"
proof -
  have bad: "(''hold'' \<noteq> ''buy'' \<and> ''hold'' \<noteq> ''sell'') \<or> (100::real) \<le> 0 \<or> (10::int) \<le> 0"
    by simp
  show ?thesis
    by (rule conjI [OF bad validation_in_main
          [OF bad, of 7 "\<lparr>engine = two_sided, orderCounter = 3\<rparr>"]])
qed

subsection \<open>C5: the aggressor's limit\<close>

text \<open>
  Claim C5. For every trade, the aggressor's limit is respected: a trade logged by
  \<open>processBuyOrder\<close> for the incoming buy order has a price at most that order's price, and
  a trade logged by \<open>processSellOrder\<close> for the incoming sell order has a price at least
  that order's price.
\<close>

theorem aggressor_limit_respected:
  "(\<forall>tr\<in>set (emitted eng (processBuyOrder buyOrder eng)). trade_price tr \<le> price buyOrder) \<and>
   (\<forall>tr\<in>set (emitted eng (processSellOrder sellOrder eng)). price sellOrder \<le> trade_price tr)"
  using processBuyOrder_trades [of buyOrder eng] processSellOrder_trades [of sellOrder eng]
  by blast

text \<open>The buy at 102 pays 101; the sell at 99 receives 100.\<close>

theorem aggressor_limit_respected_witness:
  "emitted two_sided (processBuyOrder (mkOrder 3 ''buy'' 102 20 3) two_sided)
     = [\<lparr>buyOrderID = 3, sellOrderID = 2, trade_price = 101, trade_quantity = 20\<rparr>] \<and>
   trade_price \<lparr>buyOrderID = 3, sellOrderID = 2, trade_price = 101, trade_quantity = 20\<rparr>
     \<le> price (mkOrder 3 ''buy'' 102 20 3) \<and>
   emitted two_sided (processSellOrder (mkOrder 4 ''sell'' 99 20 4) two_sided)
     = [\<lparr>buyOrderID = 1, sellOrderID = 4, trade_price = 100, trade_quantity = 20\<rparr>] \<and>
   price (mkOrder 4 ''sell'' 99 20 4)
     \<le> trade_price \<lparr>buyOrderID = 1, sellOrderID = 4, trade_price = 100, trade_quantity = 20\<rparr>"
proof -
  let ?b = "mkOrder 3 ''buy'' 102 20 3" and ?s = "mkOrder 4 ''sell'' 99 20 4"
  let ?tb = "\<lparr>buyOrderID = 3, sellOrderID = 2, trade_price = 101, trade_quantity = 20\<rparr>"
  let ?ts = "\<lparr>buyOrderID = 1, sellOrderID = 4, trade_price = 100, trade_quantity = 20\<rparr>"
  have eb: "emitted two_sided (processBuyOrder ?b two_sided) = [?tb]" by code_simp
  have es: "emitted two_sided (processSellOrder ?s two_sided) = [?ts]" by code_simp
  have mb: "?tb \<in> set (emitted two_sided (processBuyOrder ?b two_sided))" by (simp add: eb)
  have ms: "?ts \<in> set (emitted two_sided (processSellOrder ?s two_sided))" by (simp add: es)
  note t = aggressor_limit_respected [of two_sided ?b ?s]
  show ?thesis
    by (rule conjI [OF eb conjI [OF bspec [OF conjunct1 [OF t] mb]
          conjI [OF es bspec [OF conjunct2 [OF t] ms]]]])
qed

subsection \<open>C6: time priority within a price\<close>

text \<open>
  Claim C6 says that equal-priced resting orders on the same side are consumed strictly
  in submission order, and that a partially filled order that is put back keeps its time
  priority. The comparators rank equal-priced orders by timestamp alone, so this fails
  for two orders with the same price and the same timestamp: after the first buy has
  taken 5 of the 10 units of order 1, the remainder of order 1 and order 2 rest, and the
  second buy is matched with order 2, which was submitted after order 1.
  (In the binary heap of the standard library, order 2 is alone in the heap when the
  remainder of order 1 is pushed, and stays at the root because the comparator does not
  rank the remainder above it.)
\<close>

theorem equal_timestamps_out_of_submission_order:
  "sellOrders (orderBook (processOrders (take 3 tied_asks) new_engine))
     = [mkOrder 2 ''sell'' 100 10 1, mkOrder 1 ''sell'' 100 5 1] \<and>
   tradeLogger (processOrders tied_asks new_engine)
     = [\<lparr>buyOrderID = 3, sellOrderID = 1, trade_price = 100, trade_quantity = 5\<rparr>,
        \<lparr>buyOrderID = 4, sellOrderID = 2, trade_price = 100, trade_quantity = 5\<rparr>]"
  by code_simp

text \<open>
  Claim C6, amended. Equal-priced resting orders on the same side are consumed in the
  order of their timestamps: in every pass of a matching loop that trades, the resting
  order that is matched is the top of the opposite queue, no order resting at the same
  price has an earlier timestamp, and afterwards the queue is the old one without the
  matched order, or with the matched order put back with a smaller positive quantity and
  all its other fields, the timestamp among them, as they were, so that it keeps its
  priority over the equal-priced orders with a later timestamp. Between orders with the
  same price and the same timestamp no order of consumption is kept.
\<close>

theorem time_priority:
  "(processBuyOrder_body (buyOrder, eng) = Some (buyOrder', eng') \<longrightarrow>
      (\<exists>top\<in>set (sellOrders (orderBook eng)).
         peekTopSellOrder (orderBook eng) = Some top \<and>
         sellOrderID (last (tradeLogger eng')) = orderID top \<and>
         (\<forall>other\<in>set (sellOrders (orderBook eng)).
            price other = price top \<longrightarrow> timestamp top \<le> timestamp other) \<and>
         (sellOrders (orderBook eng') = remove1 top (sellOrders (orderBook eng)) \<or>
          (\<exists>r. 0 < r \<and> sellOrders (orderBook eng')
                  = remove1 top (sellOrders (orderBook eng)) @ [top\<lparr>quantity := r\<rparr>])))) \<and>
   (processSellOrder_body (sellOrder, eng) = Some (sellOrder', eng'') \<longrightarrow>
      (\<exists>top\<in>set (buyOrders (orderBook eng)).
         peekTopBuyOrder (orderBook eng) = Some top \<and>
         buyOrderID (last (tradeLogger eng'')) = orderID top \<and>
         (\<forall>other\<in>set (buyOrders (orderBook eng)).
            price other = price top \<longrightarrow> timestamp top \<le> timestamp other) \<and>
         (buyOrders (orderBook eng'') = remove1 top (buyOrders (orderBook eng)) \<or>
          (\<exists>r. 0 < r \<and> buyOrders (orderBook eng'')
                  = remove1 top (buyOrders (orderBook eng)) @ [top\<lparr>quantity := r\<rparr>]))))"
proof (intro conjI impI)
  assume "processBuyOrder_body (buyOrder, eng) = Some (buyOrder', eng')"
  then obtain t q where
    top: "pq_top SellOrderComparator (sellOrders (orderBook eng)) = Some t" and
    mem: "t \<in> set (sellOrders (orderBook eng))" and
    sells: "sellOrders (orderBook eng') =
       (if 0 < quantity t - q
        then remove1 t (sellOrders (orderBook eng)) @ [t\<lparr>quantity := quantity t - q\<rparr>]
        else remove1 t (sellOrders (orderBook eng)))" and
    log: "tradeLogger eng' = tradeLogger eng @
       [\<lparr>buyOrderID = orderID buyOrder, sellOrderID = orderID t, trade_price = price t,
         trade_quantity = q\<rparr>]"
    by (rule processBuyOrder_body_Some) blast
  have best: "\<forall>other\<in>set (sellOrders (orderBook eng)).
            price other = price t \<longrightarrow> timestamp t \<le> timestamp other"
    using sell_top_best [OF top] by blast
  have reins: "sellOrders (orderBook eng') = remove1 t (sellOrders (orderBook eng)) \<or>
          (\<exists>r. 0 < r \<and> sellOrders (orderBook eng')
                  = remove1 t (sellOrders (orderBook eng)) @ [t\<lparr>quantity := r\<rparr>])"
  proof (cases "0 < quantity t - q")
    case True
    then have "0 < quantity t - q \<and> sellOrders (orderBook eng')
                  = remove1 t (sellOrders (orderBook eng)) @ [t\<lparr>quantity := quantity t - q\<rparr>]"
      by (simp add: sells)
    then show ?thesis by blast
  next
    case False
    then show ?thesis by (simp add: sells)
  qed
  show "\<exists>top\<in>set (sellOrders (orderBook eng)).
         peekTopSellOrder (orderBook eng) = Some top \<and>
         sellOrderID (last (tradeLogger eng')) = orderID top \<and>
         (\<forall>other\<in>set (sellOrders (orderBook eng)).
            price other = price top \<longrightarrow> timestamp top \<le> timestamp other) \<and>
         (sellOrders (orderBook eng') = remove1 top (sellOrders (orderBook eng)) \<or>
          (\<exists>r. 0 < r \<and> sellOrders (orderBook eng')
                  = remove1 top (sellOrders (orderBook eng)) @ [top\<lparr>quantity := r\<rparr>]))"
    using mem top best reins by (intro bexI [of _ t]) (simp_all add: peekTopSellOrder_def log)
next
  assume "processSellOrder_body (sellOrder, eng) = Some (sellOrder', eng'')"
  then obtain t q where
    top: "pq_top BuyOrderComparator (buyOrders (orderBook eng)) = Some t" and
    mem: "t \<in> set (buyOrders (orderBook eng))" and
    buys: "buyOrders (orderBook eng'') =
       (if 0 < quantity t - q
        then remove1 t (buyOrders (orderBook eng)) @ [t\<lparr>quantity := quantity t - q\<rparr>]
        else remove1 t (buyOrders (orderBook eng)))" and
    log: "tradeLogger eng'' = tradeLogger eng @
       [\<lparr>buyOrderID = orderID t, sellOrderID = orderID sellOrder, trade_price = price t,
         trade_quantity = q\<rparr>]"
    by (rule processSellOrder_body_Some) blast
  have best: "\<forall>other\<in>set (buyOrders (orderBook eng)).
            price other = price t \<longrightarrow> timestamp t \<le> timestamp other"
    using buy_top_best [OF top] by blast
  have reins: "buyOrders (orderBook eng'') = remove1 t (buyOrders (orderBook eng)) \<or>
          (\<exists>r. 0 < r \<and> buyOrders (orderBook eng'')
                  = remove1 t (buyOrders (orderBook eng)) @ [t\<lparr>quantity := r\<rparr>])"
  proof (cases "0 < quantity t - q")
    case True
    then have "0 < quantity t - q \<and> buyOrders (orderBook eng'')
                  = remove1 t (buyOrders (orderBook eng)) @ [t\<lparr>quantity := quantity t - q\<rparr>]"
      by (simp add: buys)
    then show ?thesis by blast
  next
    case False
    then show ?thesis by (simp add: buys)
  qed
  show "\<exists>top\<in>set (buyOrders (orderBook eng)).
         peekTopBuyOrder (orderBook eng) = Some top \<and>
         buyOrderID (last (tradeLogger eng'')) = orderID top \<and>
         (\<forall>other\<in>set (buyOrders (orderBook eng)).
            price other = price top \<longrightarrow> timestamp top \<le> timestamp other) \<and>
         (buyOrders (orderBook eng'') = remove1 top (buyOrders (orderBook eng)) \<or>
          (\<exists>r. 0 < r \<and> buyOrders (orderBook eng'')
                  = remove1 top (buyOrders (orderBook eng)) @ [top\<lparr>quantity := r\<rparr>]))"
    using mem top best reins by (intro bexI [of _ t]) (simp_all add: peekTopBuyOrder_def log)
qed

text \<open>Of the two asks at 100 the one of time 3 is matched, of the two bids at 99 the one
  of time 1.\<close>

theorem time_priority_witness:
  "processBuyOrder_body (mkOrder 5 ''buy'' 100 15 5, queued) \<noteq> None \<and>
   peekTopSellOrder (orderBook queued) = Some (mkOrder 3 ''sell'' 100 10 3) \<and>
   (\<exists>top\<in>set (sellOrders (orderBook queued)).
         peekTopSellOrder (orderBook queued) = Some top \<and>
         sellOrderID (last (tradeLogger
            (snd (the (processBuyOrder_body (mkOrder 5 ''buy'' 100 15 5, queued))))))
           = orderID top \<and>
         (\<forall>other\<in>set (sellOrders (orderBook queued)).
            price other = price top \<longrightarrow> timestamp top \<le> timestamp other) \<and>
         (sellOrders (orderBook
            (snd (the (processBuyOrder_body (mkOrder 5 ''buy'' 100 15 5, queued)))))
            = remove1 top (sellOrders (orderBook queued)) \<or>
          (\<exists>r. 0 < r \<and> sellOrders (orderBook
            (snd (the (processBuyOrder_body (mkOrder 5 ''buy'' 100 15 5, queued)))))
                  = remove1 top (sellOrders (orderBook queued)) @ [top\<lparr>quantity := r\<rparr>]))) \<and>
   processSellOrder_body (mkOrder 6 ''sell'' 99 5 6, queued) \<noteq> None \<and>
   peekTopBuyOrder (orderBook queued) = Some (mkOrder 1 ''buy'' 99 10 1) \<and>
   (\<exists>top\<in>set (buyOrders (orderBook queued)).
         peekTopBuyOrder (orderBook queued) = Some top \<and>
         buyOrderID (last (tradeLogger
            (snd (the (processSellOrder_body (mkOrder 6 ''sell'' 99 5 6, queued))))))
           = orderID top \<and>
         (\<forall>other\<in>set (buyOrders (orderBook queued)).
            price other = price top \<longrightarrow> timestamp top \<le> timestamp other) \<and>
         (buyOrders (orderBook
            (snd (the (processSellOrder_body (mkOrder 6 ''sell'' 99 5 6, queued)))))
            = remove1 top (buyOrders (orderBook queued)) \<or>
          (\<exists>r. 0 < r \<and> buyOrders (orderBook
            (snd (the (processSellOrder_body (mkOrder 6 ''sell'' 99 5 6, queued)))))
                  = remove1 top (buyOrders (orderBook queued)) @ [top\<lparr>quantity := r\<rparr>])))"
proof -
  let ?b = "mkOrder 5 ''buy'' 100 15 5" and ?s = "mkOrder 6 ''sell'' 99 5 6"
  have runb: "processBuyOrder_body (?b, queued) \<noteq> None" by code_simp
  then have someb: "processBuyOrder_body (?b, queued)
      = Some (fst (the (processBuyOrder_body (?b, queued))),
              snd (the (processBuyOrder_body (?b, queued))))"
    by simp
  have runs: "processSellOrder_body (?s, queued) \<noteq> None" by code_simp
  then have somes: "processSellOrder_body (?s, queued)
      = Some (fst (the (processSellOrder_body (?s, queued))),
              snd (the (processSellOrder_body (?s, queued))))"
    by simp
  have topb: "peekTopSellOrder (orderBook queued) = Some (mkOrder 3 ''sell'' 100 10 3)"
    by code_simp
  have tops: "peekTopBuyOrder (orderBook queued) = Some (mkOrder 1 ''buy'' 99 10 1)"
    by code_simp
  note t = time_priority [of ?b queued "fst (the (processBuyOrder_body (?b, queued)))"
      "snd (the (processBuyOrder_body (?b, queued)))" ?s
      "fst (the (processSellOrder_body (?s, queued)))"
      "snd (the (processSellOrder_body (?s, queued)))"]
  show ?thesis
    by (rule conjI [OF runb conjI [OF topb conjI [OF mp [OF conjunct1 [OF t] someb]
          conjI [OF runs conjI [OF tops mp [OF conjunct2 [OF t] somes]]]]]])
qed

subsection \<open>C7: the matching loops terminate\<close>

text \<open>
  Claim C7. The matching loop terminates for every input: for every incoming order and
  every engine state, the loop of \<open>processBuyOrder\<close> ends within twice the number of
  resting asks plus one passes, and the loop of \<open>processSellOrder\<close> within twice the number
  of resting bids plus one passes. When the resting quantities of the opposite side are
  positive, as they are in every book the engine builds, each pass that does not leave
  the loop strictly decreases the total resting quantity of the opposite side, which
  stays a non-negative integer, and the loop ends within that many passes.
\<close>

theorem matching_loops_terminate:
  "loop_within (2 * length (sellOrders (orderBook eng)) + 1) processBuyOrder_body (order, eng)
     = Some (processBuyOrder_loop (order, eng)) \<and>
   loop_within (2 * length (buyOrders (orderBook eng)) + 1) processSellOrder_body (order, eng)
     = Some (processSellOrder_loop (order, eng)) \<and>
   (positive_qty (sellOrders (orderBook eng)) \<longrightarrow>
      loop_within (nat (resting_qty (sellOrders (orderBook eng)))) processBuyOrder_body (order, eng)
        = Some (processBuyOrder_loop (order, eng)) \<and>
      (\<forall>order' eng'. processBuyOrder_body (order, eng) = Some (order', eng') \<longrightarrow>
         positive_qty (sellOrders (orderBook eng')) \<and>
         0 \<le> resting_qty (sellOrders (orderBook eng')) \<and>
         resting_qty (sellOrders (orderBook eng')) < resting_qty (sellOrders (orderBook eng)))) \<and>
   (positive_qty (buyOrders (orderBook eng)) \<longrightarrow>
      loop_within (nat (resting_qty (buyOrders (orderBook eng)))) processSellOrder_body (order, eng)
        = Some (processSellOrder_loop (order, eng)) \<and>
      (\<forall>order' eng'. processSellOrder_body (order, eng) = Some (order', eng') \<longrightarrow>
         positive_qty (buyOrders (orderBook eng')) \<and>
         0 \<le> resting_qty (buyOrders (orderBook eng')) \<and>
         resting_qty (buyOrders (orderBook eng')) < resting_qty (buyOrders (orderBook eng))))"
  using buy_loop_ends [of eng order] sell_loop_ends [of eng order]
    buy_loop_ends_resting [of eng order] sell_loop_ends_resting [of eng order]
    processBuyOrder_body_decreases [of order eng] processSellOrder_body_decreases [of order eng]
  by blast

text \<open>A buy of 15 at 100 and a sell of 5 at 99 on the book with two bids and two asks.\<close>

theorem matching_loops_terminate_witness:
  "positive_qty (sellOrders (orderBook queued)) \<and>
   processBuyOrder_body (mkOrder 5 ''buy'' 100 15 5, queued) \<noteq> None \<and>
   loop_within (2 * length (sellOrders (orderBook queued)) + 1) processBuyOrder_body
       (mkOrder 5 ''buy'' 100 15 5, queued)
     = Some (processBuyOrder_loop (mkOrder 5 ''buy'' 100 15 5, queued)) \<and>
   loop_within (nat (resting_qty (sellOrders (orderBook queued)))) processBuyOrder_body
       (mkOrder 5 ''buy'' 100 15 5, queued)
     = Some (processBuyOrder_loop (mkOrder 5 ''buy'' 100 15 5, queued)) \<and>
   resting_qty (sellOrders (orderBook
       (snd (the (processBuyOrder_body (mkOrder 5 ''buy'' 100 15 5, queued))))))
     < resting_qty (sellOrders (orderBook queued)) \<and>
   positive_qty (buyOrders (orderBook queued)) \<and>
   processSellOrder_body (mkOrder 6 ''sell'' 99 5 6, queued) \<noteq> None \<and>
   loop_within (2 * length (buyOrders (orderBook queued)) + 1) processSellOrder_body
       (mkOrder 6 ''sell'' 99 5 6, queued)
     = Some (processSellOrder_loop (mkOrder 6 ''sell'' 99 5 6, queued)) \<and>
   loop_within (nat (resting_qty (buyOrders (orderBook queued)))) processSellOrder_body
       (mkOrder 6 ''sell'' 99 5 6, queued)
     = Some (processSellOrder_loop (mkOrder 6 ''sell'' 99 5 6, queued)) \<and>
   resting_qty (buyOrders (orderBook
       (snd (the (processSellOrder_body (mkOrder 6 ''sell'' 99 5 6, queued))))))
     < resting_qty (buyOrders (orderBook queued))"
proof -
  let ?b = "mkOrder 5 ''buy'' 100 15 5" and ?s = "mkOrder 6 ''sell'' 99 5 6"
  have posb: "positive_qty (sellOrders (orderBook queued))" by code_simp
  have runb: "processBuyOrder_body (?b, queued) \<noteq> None" by code_simp
  then have someb: "processBuyOrder_body (?b, queued)
      = Some (fst (the (processBuyOrder_body (?b, queued))),
              snd (the (processBuyOrder_body (?b, queued))))"
    by simp
  have poss: "positive_qty (buyOrders (orderBook queued))" by code_simp
  have runs: "processSellOrder_body (?s, queued) \<noteq> None" by code_simp
  then have somes: "processSellOrder_body (?s, queued)
      = Some (fst (the (processSellOrder_body (?s, queued))),
              snd (the (processSellOrder_body (?s, queued))))"
    by simp
  note tb = matching_loops_terminate [of queued ?b]
  note cb = mp [OF conjunct1 [OF conjunct2 [OF conjunct2 [OF tb]]] posb]
  note db = mp [OF spec [OF spec [OF conjunct2 [OF cb]]] someb]
  note ts = matching_loops_terminate [of queued ?s]
  note cs = mp [OF conjunct2 [OF conjunct2 [OF conjunct2 [OF ts]]] poss]
  note ds = mp [OF spec [OF spec [OF conjunct2 [OF cs]]] somes]
  note f3 = conjunct1 [OF tb] and f4 = conjunct1 [OF cb] and f5 = conjunct2 [OF conjunct2 [OF db]]
  note f8 = conjunct1 [OF conjunct2 [OF ts]] and f9 = conjunct1 [OF cs]
    and f10 = conjunct2 [OF conjunct2 [OF ds]]
  show ?thesis
    by (intro conjI) (fact posb runb f3 f4 f5 poss runs f8 f9 f10)+
qed

subsection \<open>C8: conservation of quantity\<close>

text \<open>
  Claim C8. Quantity is conserved: for every sequence of submissions to a new engine, on
  each side, the total quantity of the admitted submissions equals the total quantity
  filled by trades plus the total quantity resting in that side's book. Rejected orders
  (more than 1000 units) and dropped orders (no positive quantity) count for nothing on
  either side of the equation.
\<close>

theorem quantity_conserved:
  "admitted_buy_qty submissions
     = traded_qty (tradeLogger (processOrders submissions new_engine))
       + resting_qty (buyOrders (orderBook (processOrders submissions new_engine))) \<and>
   admitted_sell_qty submissions
     = traded_qty (tradeLogger (processOrders submissions new_engine))
       + resting_qty (sellOrders (orderBook (processOrders submissions new_engine)))"
  using processOrders_conserves [of submissions new_engine]
  by (simp add: new_engine_def)

text \<open>Walking the book, with an order of 1500 units and an order of -5 units in front:
  25 bought, 30 offered, 20 traded, 5 and 10 resting.\<close>

theorem quantity_conserved_witness:
  "admitted_buy_qty
       (mkOrder 8 ''buy'' 100 1500 0 # mkOrder 9 ''buy'' 100 (- 5) 0 # walk_the_book) = 25 \<and>
   admitted_sell_qty
       (mkOrder 8 ''buy'' 100 1500 0 # mkOrder 9 ''buy'' 100 (- 5) 0 # walk_the_book) = 30 \<and>
   traded_qty (tradeLogger (processOrders
       (mkOrder 8 ''buy'' 100 1500 0 # mkOrder 9 ''buy'' 100 (- 5) 0 # walk_the_book)
       new_engine)) = 20 \<and>
   admitted_buy_qty
       (mkOrder 8 ''buy'' 100 1500 0 # mkOrder 9 ''buy'' 100 (- 5) 0 # walk_the_book)
     = traded_qty (tradeLogger (processOrders
         (mkOrder 8 ''buy'' 100 1500 0 # mkOrder 9 ''buy'' 100 (- 5) 0 # walk_the_book)
         new_engine))
       + resting_qty (buyOrders (orderBook (processOrders
           (mkOrder 8 ''buy'' 100 1500 0 # mkOrder 9 ''buy'' 100 (- 5) 0 # walk_the_book)
           new_engine))) \<and>
   admitted_sell_qty
       (mkOrder 8 ''buy'' 100 1500 0 # mkOrder 9 ''buy'' 100 (- 5) 0 # walk_the_book)
     = traded_qty (tradeLogger (processOrders
         (mkOrder 8 ''buy'' 100 1500 0 # mkOrder 9 ''buy'' 100 (- 5) 0 # walk_the_book)
         new_engine))
       + resting_qty (sellOrders (orderBook (processOrders
           (mkOrder 8 ''buy'' 100 1500 0 # mkOrder 9 ''buy'' 100 (- 5) 0 # walk_the_book)
           new_engine)))"
proof -
  let ?subs = "mkOrder 8 ''buy'' 100 1500 0 # mkOrder 9 ''buy'' 100 (- 5) 0 # walk_the_book"
  have b: "admitted_buy_qty ?subs = 25" by code_simp
  have s: "admitted_sell_qty ?subs = 30" by code_simp
  have t: "traded_qty (tradeLogger (processOrders ?subs new_engine)) = 20" by code_simp
  show ?thesis
    by (rule conjI [OF b conjI [OF s conjI [OF t quantity_conserved [of ?subs]]]])
qed

subsection \<open>C9: the incoming order's own side\<close>

text \<open>
  Claim C9. Processing an incoming buy order never removes or modifies an order resting
  on the bid side: afterwards the bid side is the old one, or the old one with the
  remainder of the incoming order added. Processing an incoming sell order does the same
  to the ask side.
\<close>

theorem own_side_untouched:
  "(buyOrders (orderBook (processBuyOrder buyOrder eng)) = buyOrders (orderBook eng) \<or>
    (\<exists>r. 0 < r \<and> buyOrders (orderBook (processBuyOrder buyOrder eng))
                    = buyOrders (orderBook eng) @ [buyOrder\<lparr>quantity := r\<rparr>])) \<and>
   (sellOrders (orderBook (processSellOrder sellOrder eng)) = sellOrders (orderBook eng) \<or>
    (\<exists>r. 0 < r \<and> sellOrders (orderBook (processSellOrder sellOrder eng))
                    = sellOrders (orderBook eng) @ [sellOrder\<lparr>quantity := r\<rparr>]))"
proof
  obtain r where "buyOrders (orderBook (processBuyOrder buyOrder eng)) =
       (if 0 < r then buyOrders (orderBook eng) @ [buyOrder\<lparr>quantity := r\<rparr>]
        else buyOrders (orderBook eng))"
    by (rule processBuyOrder_summary [of buyOrder eng]) blast
  then show "buyOrders (orderBook (processBuyOrder buyOrder eng)) = buyOrders (orderBook eng) \<or>
    (\<exists>r. 0 < r \<and> buyOrders (orderBook (processBuyOrder buyOrder eng))
                    = buyOrders (orderBook eng) @ [buyOrder\<lparr>quantity := r\<rparr>])"
    by (cases "0 < r") auto
next
  obtain r where "sellOrders (orderBook (processSellOrder sellOrder eng)) =
       (if 0 < r then sellOrders (orderBook eng) @ [sellOrder\<lparr>quantity := r\<rparr>]
        else sellOrders (orderBook eng))"
    by (rule processSellOrder_summary [of sellOrder eng]) blast
  then show "sellOrders (orderBook (processSellOrder sellOrder eng)) = sellOrders (orderBook eng) \<or>
    (\<exists>r. 0 < r \<and> sellOrders (orderBook (processSellOrder sellOrder eng))
                    = sellOrders (orderBook eng) @ [sellOrder\<lparr>quantity := r\<rparr>])"
    by (cases "0 < r") auto
qed

text \<open>A buy of 25 at 100 takes both asks of 10 and rests 5 behind the two bids.\<close>

theorem own_side_untouched_witness:
  "buyOrders (orderBook queued) = [mkOrder 1 ''buy'' 99 10 1, mkOrder 2 ''buy'' 99 10 2] \<and>
   buyOrders (orderBook (processBuyOrder (mkOrder 5 ''buy'' 100 25 5) queued))
     = buyOrders (orderBook queued) @ [(mkOrder 5 ''buy'' 100 25 5)\<lparr>quantity := 5\<rparr>] \<and>
   (buyOrders (orderBook (processBuyOrder (mkOrder 5 ''buy'' 100 25 5) queued))
      = buyOrders (orderBook queued) \<or>
    (\<exists>r. 0 < r \<and> buyOrders (orderBook (processBuyOrder (mkOrder 5 ''buy'' 100 25 5) queued))
                    = buyOrders (orderBook queued) @ [(mkOrder 5 ''buy'' 100 25 5)\<lparr>quantity := r\<rparr>])) \<and>
   (sellOrders (orderBook (processSellOrder (mkOrder 6 ''sell'' 99 5 6) queued))
      = sellOrders (orderBook queued) \<or>
    (\<exists>r. 0 < r \<and> sellOrders (orderBook (processSellOrder (mkOrder 6 ''sell'' 99 5 6) queued))
                    = sellOrders (orderBook queued) @ [(mkOrder 6 ''sell'' 99 5 6)\<lparr>quantity := r\<rparr>]))"
proof -
  have a: "buyOrders (orderBook queued) = [mkOrder 1 ''buy'' 99 10 1, mkOrder 2 ''buy'' 99 10 2]"
    by code_simp
  have b: "buyOrders (orderBook (processBuyOrder (mkOrder 5 ''buy'' 100 25 5) queued))
     = buyOrders (orderBook queued) @ [(mkOrder 5 ''buy'' 100 25 5)\<lparr>quantity := 5\<rparr>]"
    by code_simp
  show ?thesis
    by (rule conjI [OF a conjI [OF b
          own_side_untouched [of "mkOrder 5 ''buy'' 100 25 5" queued "mkOrder 6 ''sell'' 99 5 6"]]])
qed

subsection \<open>C10: orders without a positive quantity\<close>

text \<open>
  Claim C10. For every incoming order with quantity \<open>\<le> 0\<close> (such an order passes the risk
  check), \<open>processOrder\<close> leaves the order book unchanged and emits no trade: neither
  matching loop makes a pass, the order is not rested, and the only output is the line
  "Processing new order:" with the order, not a rejection.
\<close>

theorem nonpositive_quantity_dropped:
  "quantity newOrder \<le> 0 \<Longrightarrow>
     processOrder newOrder eng = eng\<lparr>cout := cout eng @ [ProcessingNewOrder newOrder]\<rparr> \<and>
     processBuyOrder_body (newOrder, eng) = None \<and>
     processSellOrder_body (newOrder, eng) = None"
  by (simp add: processOrder_def processBuyOrder_def processSellOrder_def Let_def
        processBuyOrder_loop.simps [of "(newOrder, eng\<lparr>cout := cout eng @ [ProcessingNewOrder newOrder]\<rparr>)"]
        processSellOrder_loop.simps [of "(newOrder, eng\<lparr>cout := cout eng @ [ProcessingNewOrder newOrder]\<rparr>)"]
        processBuyOrder_body_def processSellOrder_body_def)

text \<open>A buy of -5 units at 102, above the resting ask at 101.\<close>

theorem nonpositive_quantity_dropped_witness:
  "quantity (mkOrder 5 ''buy'' 102 (- 5) 5) \<le> 0 \<and>
   processOrder (mkOrder 5 ''buy'' 102 (- 5) 5) two_sided
     = two_sided\<lparr>cout := cout two_sided @ [ProcessingNewOrder (mkOrder 5 ''buy'' 102 (- 5) 5)]\<rparr> \<and>
   processBuyOrder_body (mkOrder 5 ''buy'' 102 (- 5) 5, two_sided) = None \<and>
   processSellOrder_body (mkOrder 5 ''buy'' 102 (- 5) 5, two_sided) = None"
proof -
  have neg: "quantity (mkOrder 5 ''buy'' 102 (- 5) 5) \<le> 0" by (simp add: mkOrder_def)
  show ?thesis
    by (rule conjI [OF neg nonpositive_quantity_dropped [OF neg, of two_sided]])
qed

end
